theory Spec2Isabelle
  imports Main "HOL-Library.Word"
begin

section \<open>cub-to-obj: the conversion core of \<^verbatim>\<open>src/cub-to-obj.js\<close>\<close>

text \<open>
  A shallow embedding of the functions \<^verbatim>\<open>chunkBuffer\<close>, \<^verbatim>\<open>matName\<close>,
  \<^verbatim>\<open>generateMTL\<close>, \<^verbatim>\<open>pointToCube\<close>, \<^verbatim>\<open>xyzToIndex\<close>, \<^verbatim>\<open>generateOBJ\<close>,
  \<^verbatim>\<open>isolateColors\<close> and \<^verbatim>\<open>convertCub\<close>.

  Conventions.
  \<^item> A Node \<^verbatim>\<open>Buffer\<close> is a list of bytes (\<open>8 word\<close>).
  \<^item> A JavaScript number that holds an integer is an \<open>int\<close>. The embedding is exact
    as long as the integers stay below \<open>2^53\<close> in absolute value, where the doubles
    of JavaScript represent every integer; the one place where the program computes a
    fraction (\<^verbatim>\<open>x / 255\<close>) is modelled on the binary64 format itself.
  \<^item> \<^verbatim>\<open>undefined\<close> is \<open>None\<close>.
  \<^item> A thrown \<^verbatim>\<open>RangeError\<close> is \<open>Inl RangeError\<close>; a loop that never exits is
    \<open>None\<close> of a \<^theory_text>\<open>partial_function (option)\<close>.
  \<^item> A call that spreads an array into its arguments throws a \<^verbatim>\<open>RangeError\<close> when the
    array has more elements than the engine accepts as arguments of one call. That
    number depends on the engine and the size of its stack; it is the parameter
    \<open>maxArgs\<close> of \<open>generateOBJ\<close> and \<open>convertCub\<close>, and every property below holds for
    every value of it. The exhaustion of memory and the greatest length of a string
    are outside the embedding.
\<close>

datatype error = RangeError

subsection \<open>Buffers\<close>

type_synonym byte = "8 word"
type_synonym buffer = "byte list"

text \<open>
  \<^verbatim>\<open>buf.slice(start, end)\<close>: a negative index counts from the end, every index is
  clamped to \<open>[0, length]\<close>, and the slice is empty when \<open>end\<close> is not after \<open>start\<close>.
\<close>

definition clampIndex :: "int \<Rightarrow> int \<Rightarrow> nat" where
  "clampIndex len i = (if i < 0 then nat (max (len + i) 0) else nat (min i len))"

definition slice_buf :: "'a list \<Rightarrow> int \<Rightarrow> int \<Rightarrow> 'a list" where
  "slice_buf buf start end =
     (let len = int (length buf);
          s = clampIndex len start;
          e = clampIndex len end
      in take (e - s) (drop s buf))"

text \<open>\<^verbatim>\<open>buf.slice(start)\<close>: the end defaults to the length.\<close>

definition sliceFrom :: "'a list \<Rightarrow> int \<Rightarrow> 'a list" where
  "sliceFrom buf start = slice_buf buf start (int (length buf))"

subsection \<open>chunkBuffer\<close>

text \<open>
  \<^verbatim>\<open>for (let i = 0; i < len; i += chunkSize) out.push(buffer.slice(i, i + chunkSize))\<close>.
  With a chunk size of 0 or less the loop never exits on a non-empty buffer, so the loop
  is a partial function: \<open>None\<close> is "does not return".
\<close>

partial_function (option) chunkLoop :: "buffer \<Rightarrow> int \<Rightarrow> int \<Rightarrow> buffer list \<Rightarrow> buffer list option" where
  "chunkLoop buffer chunkSize i out =
     (if i < int (length buffer)
      then chunkLoop buffer chunkSize (i + chunkSize) (out @ [slice_buf buffer i (i + chunkSize)])
      else Some out)"

declare chunkLoop.simps [code]

definition chunkBuffer :: "buffer \<Rightarrow> int \<Rightarrow> buffer list option" where
  "chunkBuffer buffer chunkSize = chunkLoop buffer chunkSize 0 []"

subsection \<open>Numbers and strings\<close>

definition version :: string where
  "version = ''0.0.1''"

definition precision :: nat where
  "precision = 6"

definition digitChar :: "int \<Rightarrow> char" where
  "digitChar n = ''0123456789'' ! nat n"

text \<open>The decimal digits of an integer that is not negative, most significant first.\<close>

function showDigits :: "int \<Rightarrow> string" where
  "showDigits n = (if n < 10 then [digitChar n] else showDigits (n div 10) @ [digitChar (n mod 10)])"
  by pat_completeness auto
termination
  by (relation "measure nat") auto

declare showDigits.simps [simp del]

text \<open>\<^verbatim>\<open>String(n)\<close> for an integer \<open>n\<close>, as \<^verbatim>\<open>join\<close> and template literals apply it.\<close>

definition showInt :: "int \<Rightarrow> string" where
  "showInt i = (if i < 0 then CHR ''-'' # showDigits (- i) else showDigits i)"

text \<open>
  The same conversion for a value that is an integer or \<^verbatim>\<open>undefined\<close> (what a read past
  the end of an array gives).
\<close>

fun jsToString :: "int option \<Rightarrow> string" where
  "jsToString None = ''undefined''"
| "jsToString (Some i) = showInt i"

text \<open>\<^verbatim>\<open>strings.join(sep)\<close>.\<close>

fun join :: "string \<Rightarrow> string list \<Rightarrow> string" where
  "join sep [] = []"
| "join sep [s] = s"
| "join sep (s # t # rest) = s @ sep @ join sep (t # rest)"

text \<open>\<^verbatim>\<open>array[i]\<close>: \<^verbatim>\<open>undefined\<close> outside the array.\<close>

definition arrayGet :: "'a list \<Rightarrow> int \<Rightarrow> 'a option" where
  "arrayGet xs i = (if 0 \<le> i \<and> i < int (length xs) then Some (xs ! nat i) else None)"

text \<open>
  \<^verbatim>\<open>array[i] = v\<close> for \<open>i\<close> up to the length of the array: an element is overwritten,
  and an assignment at the length appends. (The program never assigns further out.)
\<close>

definition arraySet :: "'a list \<Rightarrow> nat \<Rightarrow> 'a \<Rightarrow> 'a list" where
  "arraySet xs i v = (if i < length xs then xs[i := v] else xs @ [v])"

text \<open>\<^verbatim>\<open>buf.toString('hex')\<close>: two lower-case hexadecimal digits per byte.\<close>

definition hexDigit :: "int \<Rightarrow> char" where
  "hexDigit n = ''0123456789abcdef'' ! nat n"

definition byteHex :: "byte \<Rightarrow> string" where
  "byteHex b = [hexDigit (uint b div 16), hexDigit (uint b mod 16)]"

definition toHex :: "buffer \<Rightarrow> string" where
  "toHex buf = concat (map byteHex buf)"

subsection \<open>Objects used as dictionaries\<close>

text \<open>
  An object is the list of its own properties in the order of their creation. Assigning
  to an existing key keeps its place; a new key goes last.

  \<^verbatim>\<open>Object.values\<close> does not follow creation order alone: the keys that are array
  indices (the canonical decimal strings of the integers from 0 to \<open>2^32 - 2\<close>) come
  first, in ascending numeric order, and the other keys follow in creation order. The
  parameter \<open>arrayIndex\<close> says which keys are array indices, and of which number.
\<close>

type_synonym ('k, 'v) jsobj = "('k \<times> 'v) list"

definition objGet :: "('k, 'v) jsobj \<Rightarrow> 'k \<Rightarrow> 'v option" where
  "objGet obj k = map_of obj k"

fun objSet :: "('k, 'v) jsobj \<Rightarrow> 'k \<Rightarrow> 'v \<Rightarrow> ('k, 'v) jsobj" where
  "objSet [] k v = [(k, v)]"
| "objSet ((k', v') # rest) k v =
     (if k' = k then (k, v) # rest else (k', v') # objSet rest k v)"

text \<open>A mutation of the value stored under a key (\<^verbatim>\<open>obj[k].points.push(p)\<close>).\<close>

definition objModify :: "('k, 'v) jsobj \<Rightarrow> 'k \<Rightarrow> ('v \<Rightarrow> 'v) \<Rightarrow> ('k, 'v) jsobj" where
  "objModify obj k f = map (\<lambda>(k', v). if k' = k then (k', f v) else (k', v)) obj"

text \<open>
  The order in which the keys of an object are listed: array indices ascending, then the
  other keys as created.
\<close>

definition keyOrder :: "('k \<Rightarrow> int option) \<Rightarrow> 'k list \<Rightarrow> 'k list" where
  "keyOrder arrayIndex ks =
     sort_key (\<lambda>k. the (arrayIndex k)) (filter (\<lambda>k. arrayIndex k \<noteq> None) ks)
     @ filter (\<lambda>k. arrayIndex k = None) ks"

definition objKeys :: "('k \<Rightarrow> int option) \<Rightarrow> ('k, 'v) jsobj \<Rightarrow> 'k list" where
  "objKeys arrayIndex obj = keyOrder arrayIndex (map fst obj)"

text \<open>\<^verbatim>\<open>Object.values(obj)\<close>: the value of each own key, in the order of the keys.\<close>

definition objValues :: "('k \<Rightarrow> int option) \<Rightarrow> ('k, 'v) jsobj \<Rightarrow> 'v list" where
  "objValues arrayIndex obj = map (\<lambda>k. the (objGet obj k)) (objKeys arrayIndex obj)"

text \<open>
  Which strings are array indices: decimal digits only, no leading zero, at most
  \<open>2^32 - 2\<close>.
\<close>

definition isDigit :: "char \<Rightarrow> bool" where
  "isDigit c = (c \<in> set ''0123456789'')"

definition digitVal :: "char \<Rightarrow> int" where
  "digitVal c = of_char c - 48"

definition decimalValue :: "string \<Rightarrow> int" where
  "decimalValue s = foldl (\<lambda>a c. 10 * a + digitVal c) 0 s"

definition arrayIndexOfString :: "string \<Rightarrow> int option" where
  "arrayIndexOfString s =
     (if s \<noteq> [] \<and> list_all isDigit s \<and> (s = ''0'' \<or> hd s \<noteq> CHR ''0'')
         \<and> decimalValue s < 2 ^ 32 - 1
      then Some (decimalValue s) else None)"

text \<open>
  A key that is a number is converted to its decimal string, and distinct integers have
  distinct strings, none of them \<^verbatim>\<open>"undefined"\<close>. So an object keyed by integers or
  \<^verbatim>\<open>undefined\<close> is keyed here by the value itself; the key is an array index when the
  integer is between 0 and \<open>2^32 - 2\<close>.
\<close>

definition arrayIndexOfNumber :: "int option \<Rightarrow> int option" where
  "arrayIndexOfNumber v =
     (case v of
        None \<Rightarrow> None
      | Some i \<Rightarrow> if 0 \<le> i \<and> i < 2 ^ 32 - 1 then Some i else None)"

subsection \<open>isolateColors\<close>

text \<open>An entry \<^verbatim>\<open>{ color, index }\<close> of the dictionary \<^verbatim>\<open>uniqueColors\<close>.\<close>

record uniqueColor =
  uc_color :: buffer
  uc_index :: int

text \<open>
  The variables the callback of \<^verbatim>\<open>inputColors.forEach\<close> reads and writes: the
  dictionary \<^verbatim>\<open>uniqueColors\<close>, the array \<^verbatim>\<open>colorIndicies\<close> and the counter
  \<^verbatim>\<open>index\<close>.
\<close>

record isolateState =
  st_uniqueColors :: "(string, uniqueColor) jsobj"
  st_colorIndicies :: "int list"
  st_index :: int

definition blackKey :: string where
  "blackKey = ''000000''"

text \<open>The callback, for the cell \<open>color\<close> at position \<open>i\<close>.\<close>

definition isolateStep :: "isolateState \<Rightarrow> buffer \<Rightarrow> nat \<Rightarrow> isolateState" where
  "isolateStep st color i =
     (let key = toHex color in
      if key = blackKey
      then st\<lparr>st_colorIndicies := arraySet (st_colorIndicies st) i (- 1)\<rparr>
      else
        (case objGet (st_uniqueColors st) key of
           None \<Rightarrow>
             st\<lparr>st_uniqueColors :=
                   objSet (st_uniqueColors st) key \<lparr>uc_color = color, uc_index = st_index st\<rparr>,
                 st_colorIndicies := arraySet (st_colorIndicies st) i (st_index st),
                 st_index := st_index st + 1\<rparr>
         | Some existingColor \<Rightarrow>
             st\<lparr>st_colorIndicies := arraySet (st_colorIndicies st) i (uc_index existingColor)\<rparr>))"

fun forEachColor :: "isolateState \<Rightarrow> nat \<Rightarrow> buffer list \<Rightarrow> isolateState" where
  "forEachColor st i [] = st"
| "forEachColor st i (color # rest) = forEachColor (isolateStep st color i) (Suc i) rest"

definition isolateInit :: isolateState where
  "isolateInit = \<lparr>st_uniqueColors = [], st_colorIndicies = [], st_index = 0\<rparr>"

record isolated =
  uniqueColors :: "buffer list"
  colorIndicies :: "int list"

definition isolateColors :: "buffer list \<Rightarrow> isolated" where
  "isolateColors inputColors =
     (let st = forEachColor isolateInit 0 inputColors in
      \<lparr>uniqueColors = map uc_color (objValues arrayIndexOfString (st_uniqueColors st)),
       colorIndicies = st_colorIndicies st\<rparr>)"

subsection \<open>pointToCube\<close>

type_synonym point = "int \<times> int \<times> int"

definition defaultCubeFaces :: "int list list" where
  "defaultCubeFaces =
     [[1, 2, 4, 3],
      [3, 4, 8, 7],
      [7, 8, 6, 5],
      [5, 6, 2, 1],
      [3, 7, 5, 1],
      [8, 4, 2, 6]]"

fun addX :: "point \<Rightarrow> int \<Rightarrow> point" where
  "addX (p0, p1, p2) x = (p0 + x, p1, p2)"

fun addY :: "point \<Rightarrow> int \<Rightarrow> point" where
  "addY (p0, p1, p2) y = (p0, p1 + y, p2)"

fun addZ :: "point \<Rightarrow> int \<Rightarrow> point" where
  "addZ (p0, p1, p2) z = (p0, p1, p2 + z)"

record cube =
  vertices :: "point list"
  faces :: "int list list"

definition pointToCube :: "point \<Rightarrow> int \<Rightarrow> cube" where
  "pointToCube point faceOffset =
     (let vs =
        [point,
         addX point 1,
         addY point 1,
         addY (addX point 1) 1,
         addZ point 1,
         addZ (addX point 1) 1,
         addZ (addY point 1) 1,
         addZ (addY (addX point 1) 1) 1];
          offset = faceOffset * int (length vs);
          fs = map (\<lambda>face. map (\<lambda>value. value + offset) face) defaultCubeFaces
      in \<lparr>vertices = vs, faces = fs\<rparr>)"

definition xyzToIndex :: "int \<Rightarrow> int \<Rightarrow> int \<Rightarrow> int \<Rightarrow> int \<Rightarrow> int \<Rightarrow> int" where
  "xyzToIndex x y z width depth height = x + width * (y + depth * z)"

subsection \<open>generateOBJ\<close>

definition matName :: "int option \<Rightarrow> string \<Rightarrow> string" where
  "matName index name = name @ ''-mat-'' @ jsToString index"

text \<open>
  In the functions of this section \<open>cis\<close> is the parameter \<^verbatim>\<open>colorIndicies\<close> of
  \<^verbatim>\<open>generateOBJ\<close>.

  An entry \<^verbatim>\<open>{ colorIndex, points }\<close> of the dictionary \<^verbatim>\<open>byColor\<close>:
\<close>

record colorGroup =
  colorIndex :: "int option"
  points :: "point list"

text \<open>The body of the innermost loop, at the point \<open>(x, y, z)\<close>.\<close>

definition scanPoint ::
  "int \<Rightarrow> int \<Rightarrow> int \<Rightarrow> int list \<Rightarrow> int \<Rightarrow> int \<Rightarrow> (int option, colorGroup) jsobj \<Rightarrow> int
     \<Rightarrow> (int option, colorGroup) jsobj" where
  "scanPoint width depth height cis x y byColor z =
     (let color = arrayGet cis (xyzToIndex x y z width depth height) in
      if color = Some (- 1) then byColor
      else
        (let byColor' =
           (if objGet byColor color = None
            then objSet byColor color \<lparr>colorIndex = color, points = []\<rparr>
            else byColor)
         in objModify byColor' color (\<lambda>g. g\<lparr>points := points g @ [(x, y, z)]\<rparr>)))"

text \<open>
  The three nested loops, \<open>x\<close> outermost and \<open>z\<close> innermost: \<open>loopZ\<close> is the body of
  the loop over \<open>y\<close> (the whole loop over \<open>z\<close>), \<open>loopY\<close> the body of the loop over
  \<open>x\<close>.
\<close>

definition loopZ ::
  "int \<Rightarrow> int \<Rightarrow> int \<Rightarrow> int list \<Rightarrow> int \<Rightarrow> (int option, colorGroup) jsobj \<Rightarrow> int
     \<Rightarrow> (int option, colorGroup) jsobj" where
  "loopZ width depth height cis x byColor y =
     foldl (scanPoint width depth height cis x y) byColor [0..height - 1]"

definition loopY ::
  "int \<Rightarrow> int \<Rightarrow> int \<Rightarrow> int list \<Rightarrow> (int option, colorGroup) jsobj \<Rightarrow> int
     \<Rightarrow> (int option, colorGroup) jsobj" where
  "loopY width depth height cis byColor x =
     foldl (loopZ width depth height cis x) byColor [0..depth - 1]"

definition scanGrid :: "int \<Rightarrow> int \<Rightarrow> int \<Rightarrow> int list \<Rightarrow> (int option, colorGroup) jsobj" where
  "scanGrid width depth height cis = foldl (loopY width depth height cis) [] [0..width - 1]"

text \<open>
  \<^verbatim>\<open>points.map(point => pointToCube(point, cubeIndex++))\<close>: the cubes of one group and
  the value of the counter \<^verbatim>\<open>cubeIndex\<close> afterwards.
\<close>

fun cubesOf :: "int \<Rightarrow> point list \<Rightarrow> cube list \<times> int" where
  "cubesOf cubeIndex [] = ([], cubeIndex)"
| "cubesOf cubeIndex (point # rest) =
     (let c = pointToCube point cubeIndex;
          (cs, cubeIndex') = cubesOf (cubeIndex + 1) rest
      in (c # cs, cubeIndex'))"

text \<open>One object of the output before it is written as text: its colour index and cubes.\<close>

record objectBlock =
  ob_colorIndex :: "int option"
  ob_cubes :: "cube list"

text \<open>The \<^verbatim>\<open>map\<close> over \<^verbatim>\<open>Object.values(byColor)\<close>, with the counter passed along.\<close>

fun objectsFrom :: "int \<Rightarrow> colorGroup list \<Rightarrow> objectBlock list" where
  "objectsFrom cubeIndex [] = []"
| "objectsFrom cubeIndex (g # gs) =
     (let (cubes, cubeIndex') = cubesOf cubeIndex (points g)
      in \<lparr>ob_colorIndex = colorIndex g, ob_cubes = cubes\<rparr> # objectsFrom cubeIndex' gs)"

text \<open>
  \<^verbatim>\<open>[].concat(...arrays)\<close>: the arrays are the arguments of one call, so the call throws
  when there are more of them than \<open>maxArgs\<close>; otherwise it returns their concatenation.
\<close>

definition spreadConcat :: "int \<Rightarrow> 'a list list \<Rightarrow> error + 'a list" where
  "spreadConcat maxArgs arrays =
     (if int (length arrays) \<le> maxArgs then Inr (concat arrays) else Inl RangeError)"

definition allVertices :: "int \<Rightarrow> objectBlock \<Rightarrow> error + point list" where
  "allVertices maxArgs blk = spreadConcat maxArgs (map vertices (ob_cubes blk))"

definition allFaces :: "int \<Rightarrow> objectBlock \<Rightarrow> error + int list list" where
  "allFaces maxArgs blk = spreadConcat maxArgs (map faces (ob_cubes blk))"

text \<open>The lines \<^verbatim>\<open>`v ${vertex.join(' ')}\n`\<close> and \<^verbatim>\<open>`f ${face.join(' ')}\n`\<close>.\<close>

fun vertexLine :: "point \<Rightarrow> string" where
  "vertexLine (x, y, z) = ''v '' @ join '' '' (map showInt [x, y, z]) @ ''\<newline>''"

definition faceLine :: "int list \<Rightarrow> string" where
  "faceLine face = ''f '' @ join '' '' (map showInt face) @ ''\<newline>''"

text \<open>
  The text of one object: the callback of the \<^verbatim>\<open>map\<close> over the groups, after the cubes of
  the group are built. It gathers the vertices, then the faces, then writes the text; an
  exception of either gathering is the outcome.
\<close>

definition renderObject :: "int \<Rightarrow> string \<Rightarrow> objectBlock \<Rightarrow> error + string" where
  "renderObject maxArgs name blk =
     (case allVertices maxArgs blk of
        Inl e \<Rightarrow> Inl e
      | Inr vs \<Rightarrow>
     (case allFaces maxArgs blk of
        Inl e \<Rightarrow> Inl e
      | Inr fs \<Rightarrow>
          Inr (''o '' @ name @ ''-obj-'' @ jsToString (ob_colorIndex blk) @ ''\<newline>''
               @ concat (map vertexLine vs)
               @ ''usemtl '' @ matName (ob_colorIndex blk) name @ ''\<newline>''
               @ ''s off\<newline>''
               @ concat (map faceLine fs))))"

text \<open>
  The texts of all objects in order. An exception in one object ends the \<^verbatim>\<open>map\<close>, and
  with it \<open>generateOBJ\<close>.
\<close>

fun objectTexts :: "int \<Rightarrow> string \<Rightarrow> objectBlock list \<Rightarrow> error + string list" where
  "objectTexts maxArgs name [] = Inr []"
| "objectTexts maxArgs name (blk # rest) =
     (case renderObject maxArgs name blk of
        Inl e \<Rightarrow> Inl e
      | Inr text \<Rightarrow>
     (case objectTexts maxArgs name rest of
        Inl e \<Rightarrow> Inl e
      | Inr texts \<Rightarrow> Inr (text # texts)))"

definition objGroups :: "int \<Rightarrow> int \<Rightarrow> int \<Rightarrow> int list \<Rightarrow> colorGroup list" where
  "objGroups width depth height cis =
     objValues arrayIndexOfNumber (scanGrid width depth height cis)"

definition objects :: "int \<Rightarrow> int \<Rightarrow> int \<Rightarrow> int list \<Rightarrow> objectBlock list" where
  "objects width depth height cis = objectsFrom 0 (objGroups width depth height cis)"

definition generateOBJ :: "int \<Rightarrow> int \<Rightarrow> int \<Rightarrow> int \<Rightarrow> int list \<Rightarrow> string \<Rightarrow> error + string" where
  "generateOBJ maxArgs width depth height cis name =
     (case objectTexts maxArgs name (objects width depth height cis) of
        Inl e \<Rightarrow> Inl e
      | Inr texts \<Rightarrow>
          Inr (''# CUB to OBJ v'' @ version @ ''\<newline>'' @ ''mtllib '' @ name @ ''.mtl\<newline>''
               @ join ''\<newline>'' texts))"

subsection \<open>generateMTL\<close>

text \<open>
  A non-negative binary64 value, written as the rational \<open>mant / 2 ^ expo\<close> it stands
  for.
\<close>

record double =
  mant :: int
  expo :: nat

definition zeroDouble :: double where
  "zeroDouble = \<lparr>mant = 0, expo = 0\<rparr>"

text \<open>The integer nearest to \<open>n / d\<close> (for \<open>0 \<le> n\<close>, \<open>0 < d\<close>), a tie going to the even one.\<close>

definition roundHalfEven :: "int \<Rightarrow> int \<Rightarrow> int" where
  "roundHalfEven n d =
     (let q = n div d; r = n mod d in
      if 2 * r < d then q
      else if d < 2 * r then q + 1
      else if even q then q else q + 1)"

text \<open>
  \<^verbatim>\<open>x / 255\<close> for an integer \<open>x\<close> from 1 to 255. The quotient lies between \<open>2^-8\<close>
  and 1, where binary64 division returns the real quotient rounded to 53 significant
  bits, ties to even: with \<open>t\<close> the least shift such that \<open>255 \<le> x * 2^t\<close>, the
  significand is \<open>x * 2^(52 + t) / 255\<close> rounded, a number from \<open>2^52\<close> to \<open>2^53\<close>.
\<close>

definition div255 :: "int \<Rightarrow> double" where
  "div255 x =
     (let t = length (takeWhile (\<lambda>t. x * 2 ^ t < 255) [0..<9]);
          e = 52 + t
      in \<lparr>mant = roundHalfEven (x * 2 ^ e) 255, expo = e\<rparr>)"

text \<open>
  \<^verbatim>\<open>v.toFixed(f)\<close> as ECMAScript defines it for \<open>0 \<le> v < 10^21\<close>: \<open>n\<close> is the integer
  for which \<open>n / 10^f - v\<close> is closest to zero, the larger one if there are two; its
  digits are padded with zeros on the left to \<open>f + 1\<close> characters, and the point goes
  before the last \<open>f\<close>.
\<close>

definition toFixedInt :: "double \<Rightarrow> nat \<Rightarrow> int" where
  "toFixedInt v f = (2 * mant v * 10 ^ f + 2 ^ expo v) div (2 * 2 ^ expo v)"

definition fixedDigits :: "int \<Rightarrow> nat \<Rightarrow> string" where
  "fixedDigits n f =
     (let m = (if n = 0 then ''0'' else showDigits n);
          m' = (if f \<noteq> 0 \<and> length m \<le> f then replicate (f + 1 - length m) (CHR ''0'') @ m else m);
          k = length m'
      in if f \<noteq> 0 then take (k - f) m' @ ''.'' @ drop (k - f) m' else m')"

definition toFixed :: "double \<Rightarrow> nat \<Rightarrow> string" where
  "toFixed v f = fixedDigits (toFixedInt v f) f"

text \<open>The inner callback \<^verbatim>\<open>x => (x === 0 ? 0 : x / 255).toFixed(precision)\<close>.\<close>

definition component :: "byte \<Rightarrow> string" where
  "component x = toFixed (if x = 0 then zeroDouble else div255 (uint x)) precision"

definition zeroToOne :: "buffer list \<Rightarrow> string list list" where
  "zeroToOne colors = map (\<lambda>color. map component color) colors"

text \<open>One material block, from the callback \<^verbatim>\<open>(material, i) => ...\<close>.\<close>

definition renderMaterial :: "string \<Rightarrow> string list \<Rightarrow> nat \<Rightarrow> string" where
  "renderMaterial name material i =
     ''newmtl '' @ matName (Some (int i)) name @ ''\<newline>''
     @ ''Kd '' @ join '' '' material @ ''\<newline>''"

definition generateMTL :: "buffer list \<Rightarrow> string \<Rightarrow> string" where
  "generateMTL colors name =
     ''# CUB to OBJ v'' @ version @ ''\<newline>''
     @ join ''\<newline>''
         (map (\<lambda>(material, i). renderMaterial name material i)
            (zip (zeroToOne colors) [0..<length colors]))"

subsection \<open>convertCub\<close>

text \<open>
  \<^verbatim>\<open>buf.readUInt32LE(offset)\<close>: the four bytes from \<open>offset\<close>, least significant
  first; a \<^verbatim>\<open>RangeError\<close> when they are not all inside the buffer.
\<close>

definition readUInt32LE :: "buffer \<Rightarrow> nat \<Rightarrow> error + int" where
  "readUInt32LE buf offset =
     (if offset + 4 \<le> length buf
      then Inr (uint (buf ! offset)
                + uint (buf ! (offset + 1)) * 2 ^ 8
                + uint (buf ! (offset + 2)) * 2 ^ 16
                + uint (buf ! (offset + 3)) * 2 ^ 24)
      else Inl RangeError)"

record converted =
  obj :: string
  mtl :: string

text \<open>
  The result is \<open>None\<close> if the call does not return, \<open>Some (Inl e)\<close> if it throws \<open>e\<close>
  and \<open>Some (Inr r)\<close> if it returns \<open>r\<close>. \<open>generateOBJ\<close> is called before
  \<open>generateMTL\<close>, and its exception is the outcome of the conversion.
\<close>

definition convertCub :: "int \<Rightarrow> buffer \<Rightarrow> string \<Rightarrow> (error + converted) option" where
  "convertCub maxArgs data name =
     (case readUInt32LE data 0 of
        Inl e \<Rightarrow> Some (Inl e)
      | Inr width \<Rightarrow>
     (case readUInt32LE data 4 of
        Inl e \<Rightarrow> Some (Inl e)
      | Inr depth \<Rightarrow>
     (case readUInt32LE data 8 of
        Inl e \<Rightarrow> Some (Inl e)
      | Inr height \<Rightarrow>
     (case chunkBuffer (sliceFrom data 12) 3 of
        None \<Rightarrow> None
      | Some colors \<Rightarrow>
          (let iso = isolateColors colors in
           case generateOBJ maxArgs width depth height (colorIndicies iso) name of
             Inl e \<Rightarrow> Some (Inl e)
           | Inr objText \<Rightarrow>
               (let mtlText = generateMTL (uniqueColors iso) name
                in Some (Inr \<lparr>obj = objText, mtl = mtlText\<rparr>)))))))"

section \<open>Notions used to state the properties\<close>

text \<open>
  A material component as the specification words it: the byte value divided by 255,
  to six decimal places. \<open>nearestMillionth a b\<close> is the integer nearest to
  \<open>a * 10^6 / b\<close> (a half is rounded up), and \<open>sixPlaces a b\<close> writes it with the point
  before its last six digits.
\<close>

definition nearestMillionth :: "int \<Rightarrow> int \<Rightarrow> int" where
  "nearestMillionth a b = (2 * a * 10 ^ 6 + b) div (2 * b)"

definition sixPlaces :: "int \<Rightarrow> int \<Rightarrow> string" where
  "sixPlaces a b =
     (let n = nearestMillionth a b;
          whole = showDigits (n div 10 ^ 6);
          frac = showDigits (n mod 10 ^ 6)
      in whole @ ''.'' @ replicate (6 - length frac) (CHR ''0'') @ frac)"

text \<open>
  For the byte value \<open>i\<close>, the integer that \<^verbatim>\<open>toFixed\<close> computes from the binary64
  quotient is the one nearest to the exact quotient.
\<close>

definition roundsExactly :: "int \<Rightarrow> bool" where
  "roundsExactly i =
     (toFixedInt (if i = 0 then zeroDouble else div255 i) precision = nearestMillionth i 255)"

text \<open>
  For the byte value \<open>i\<close>, \<open>div255 i\<close> is the quotient \<open>i / 255\<close> correctly rounded to
  binary64: its significand has 53 bits and is within one half of \<open>i * 2^expo / 255\<close>.
\<close>

definition correctlyRounded :: "int \<Rightarrow> bool" where
  "correctlyRounded i =
     (let v = div255 i in
      2 ^ 52 \<le> mant v \<and> mant v < 2 ^ 53
      \<and> 2 * \<bar>255 * mant v - i * 2 ^ expo v\<bar> \<le> 255)"

text \<open>The grid points in the order of the scan: \<open>x\<close> outermost, then \<open>y\<close>, then \<open>z\<close>.\<close>

definition gridPoints :: "int \<Rightarrow> int \<Rightarrow> int \<Rightarrow> point list" where
  "gridPoints width depth height =
     concat (map (\<lambda>x. concat (map (\<lambda>y. map (\<lambda>z. (x, y, z)) [0..height - 1]) [0..depth - 1]))
       [0..width - 1])"

text \<open>The entry of a per-cell array (of colour indices, or of cells) that belongs to a point.\<close>

fun colorAt :: "int \<Rightarrow> int \<Rightarrow> int \<Rightarrow> 'a list \<Rightarrow> point \<Rightarrow> 'a option" where
  "colorAt width depth height arr (x, y, z) = arrayGet arr (xyzToIndex x y z width depth height)"

text \<open>The elements of a list in the order of their first occurrence.\<close>

definition firstSeen :: "'a list \<Rightarrow> 'a list" where
  "firstSeen xs = foldl (\<lambda>acc c. if c \<in> set acc then acc else acc @ [c]) [] xs"

text \<open>
  The colour indices other than the exclusion marker, in the order in which the scan of
  the grid discovers them.
\<close>

definition discoveryOrder :: "int \<Rightarrow> int \<Rightarrow> int \<Rightarrow> int list \<Rightarrow> int option list" where
  "discoveryOrder width depth height cis =
     firstSeen (filter (\<lambda>c. c \<noteq> Some (- 1))
       (map (colorAt width depth height cis) (gridPoints width depth height)))"

text \<open>The cubes of the whole output, and the points they stand on, in the order of emission.\<close>

definition emittedCubes :: "int \<Rightarrow> int \<Rightarrow> int \<Rightarrow> int list \<Rightarrow> cube list" where
  "emittedCubes width depth height cis = concat (map ob_cubes (objects width depth height cis))"

definition emittedPoints :: "int \<Rightarrow> int \<Rightarrow> int \<Rightarrow> int list \<Rightarrow> point list" where
  "emittedPoints width depth height cis = concat (map points (objGroups width depth height cis))"

text \<open>The body of the innermost loop as a function of the dictionary and the point.\<close>

fun scanAt ::
  "int \<Rightarrow> int \<Rightarrow> int \<Rightarrow> int list \<Rightarrow> (int option, colorGroup) jsobj \<Rightarrow> point
     \<Rightarrow> (int option, colorGroup) jsobj" where
  "scanAt width depth height cis byColor (x, y, z) = scanPoint width depth height cis x y byColor z"

text \<open>
  What holds of the variables of the loop in \<^verbatim>\<open>isolateColors\<close> after the cells \<open>xs\<close>:
  the index array has one entry per cell, which is the marker exactly for the cells with
  the black key; the dictionary has distinct keys, each the key of the colour stored
  under it and none the black key; the stored indices and the entries of the index
  array lie below the counter, which is the number of keys; and every cell with another
  key than black has its key in the dictionary.
\<close>

definition isolateInv :: "buffer list \<Rightarrow> isolateState \<Rightarrow> bool" where
  "isolateInv xs st \<longleftrightarrow>
     length (st_colorIndicies st) = length xs
   \<and> list_all2 (\<lambda>c v. (toHex c = blackKey) = (v = - 1)) xs (st_colorIndicies st)
   \<and> distinct (map fst (st_uniqueColors st))
   \<and> (\<forall>(k, e)\<in>set (st_uniqueColors st).
        k = toHex (uc_color e) \<and> k \<noteq> blackKey \<and> 0 \<le> uc_index e \<and> uc_index e < st_index st)
   \<and> st_index st = int (length (st_uniqueColors st))
   \<and> (\<forall>v\<in>set (st_colorIndicies st). v = - 1 \<or> (0 \<le> v \<and> v < st_index st))
   \<and> (\<forall>c\<in>set xs. toHex c \<noteq> blackKey \<longrightarrow> toHex c \<in> fst ` set (st_uniqueColors st))"

text \<open>
  Texts as lines. \<open>unlines\<close> writes every line with a line break after it; \<open>linesOf\<close>
  gives the lines of a text, the pieces between its line breaks; \<open>blankSeparated\<close> puts
  an empty line between consecutive blocks of lines.
\<close>

definition unlines :: "string list \<Rightarrow> string" where
  "unlines ls = concat (map (\<lambda>l. l @ ''\<newline>'') ls)"

fun linesOf :: "string \<Rightarrow> string list" where
  "linesOf [] = [[]]"
| "linesOf (c # cs) =
     (if c = CHR ''\<newline>'' then [] # linesOf cs
      else (case linesOf cs of [] \<Rightarrow> [[c]] | l # ls \<Rightarrow> (c # l) # ls))"

fun blankSeparated :: "string list list \<Rightarrow> string list" where
  "blankSeparated [] = []"
| "blankSeparated [b] = b"
| "blankSeparated (b # c # rest) = b @ [[]] @ blankSeparated (c # rest)"

text \<open>
  The lines of one object block in the format of the geometry text: the \<^verbatim>\<open>o\<close> line
  that names the object, a \<^verbatim>\<open>v\<close> line for every vertex of every cube of the block, the
  \<^verbatim>\<open>usemtl\<close> line that names the material, the line \<^verbatim>\<open>s off\<close>, and an \<^verbatim>\<open>f\<close> line
  for every face of every cube of the block.
\<close>

fun vertexText :: "point \<Rightarrow> string" where
  "vertexText (x, y, z) = ''v '' @ showInt x @ '' '' @ showInt y @ '' '' @ showInt z"

definition faceText :: "int list \<Rightarrow> string" where
  "faceText face = ''f '' @ join '' '' (map showInt face)"

definition objectLines :: "string \<Rightarrow> objectBlock \<Rightarrow> string list" where
  "objectLines name blk =
     [''o '' @ name @ ''-obj-'' @ jsToString (ob_colorIndex blk)]
     @ map vertexText (concat (map vertices (ob_cubes blk)))
     @ [''usemtl '' @ name @ ''-mat-'' @ jsToString (ob_colorIndex blk), ''s off'']
     @ map faceText (concat (map faces (ob_cubes blk)))"

text \<open>
  The lines of the material block number \<open>i\<close> in the format of the material text: the
  \<^verbatim>\<open>newmtl\<close> line that names the material and the \<^verbatim>\<open>Kd\<close> line of its colour.
\<close>

definition materialLines :: "string \<Rightarrow> buffer list \<Rightarrow> nat \<Rightarrow> string list" where
  "materialLines name colors i =
     [''newmtl '' @ name @ ''-mat-'' @ showInt (int i),
      ''Kd '' @ join '' '' (map component (colors ! i))]"

text \<open>
  A vertex line of a text in the format of the object file is a line that begins with
  \<^verbatim>\<open>v\<close> and a space; a face index \<open>n\<close> refers to the \<open>n\<close>-th vertex line of the text.
\<close>

definition isVertexLine :: "string \<Rightarrow> bool" where
  "isVertexLine l = (take 2 l = ''v '')"

definition vertexLineCount :: "string \<Rightarrow> nat" where
  "vertexLineCount text = length (filter isVertexLine (linesOf text))"

section \<open>Properties\<close>

subsection \<open>chunkBuffer\<close>

lemma slice_buf_chunk:
  assumes "0 \<le> i" "0 < cs" "i < int (length buf)"
  shows "slice_buf buf i (i + cs) = take (nat cs) (drop (nat i) buf)"
proof (cases "i + cs \<le> int (length buf)")
  case True
  with assms have "nat (i + cs) - nat i = nat cs" by linarith
  with True assms show ?thesis
    by (simp add: slice_buf_def clampIndex_def min_def)
next
  case False
  with assms have "length buf - nat i \<le> nat cs" by linarith
  with False assms show ?thesis
    by (simp add: slice_buf_def clampIndex_def min_def)
qed

text \<open>
  The loop invariant: from a position \<open>i \<ge> 0\<close> the loop returns, and what it pushes is
  the rest of the buffer cut into non-empty pieces of at most \<open>cs\<close> bytes, all but the
  last of exactly \<open>cs\<close>.
\<close>

lemma chunkLoop_correct:
  assumes "0 < cs" "0 \<le> i"
  shows "\<exists>rest. chunkLoop buf cs i out = Some (out @ rest)
           \<and> concat rest = drop (nat i) buf
           \<and> (\<forall>c\<in>set rest. c \<noteq> [] \<and> int (length c) \<le> cs)
           \<and> (\<forall>c\<in>set (butlast rest). int (length c) = cs)"
  using assms(2)
proof (induction "length buf - nat i" arbitrary: i out rule: less_induct)
  case less
  show ?case
  proof (cases "i < int (length buf)")
    case False
    then have "chunkLoop buf cs i out = Some (out @ [])"
      by (subst chunkLoop.simps) simp
    moreover from False less.prems have "drop (nat i) buf = []" by simp
    ultimately show ?thesis by fastforce
  next
    case True
    define c where "c = take (nat cs) (drop (nat i) buf)"
    have sl: "slice_buf buf i (i + cs) = c"
      using slice_buf_chunk [OF less.prems assms(1) True] by (simp add: c_def)
    have cne: "c \<noteq> []" using True less.prems assms(1) by (simp add: c_def)
    have cle: "int (length c) \<le> cs" using assms(1) by (simp add: c_def)
    have step: "chunkLoop buf cs i out = chunkLoop buf cs (i + cs) (out @ [c])"
      using True sl by (subst chunkLoop.simps) simp
    have dec: "length buf - nat (i + cs) < length buf - nat i"
      using True less.prems assms(1) by linarith
    have nn: "0 \<le> i + cs" using less.prems assms(1) by simp
    from less.hyps [OF dec nn, of "out @ [c]"]
    obtain rest where r: "chunkLoop buf cs (i + cs) (out @ [c]) = Some ((out @ [c]) @ rest)"
      "concat rest = drop (nat (i + cs)) buf"
      "\<forall>c\<in>set rest. c \<noteq> [] \<and> int (length c) \<le> cs"
      "\<forall>c\<in>set (butlast rest). int (length c) = cs"
      by blast
    have nat_add: "nat (i + cs) = nat cs + nat i"
      using less.prems assms(1) by linarith
    have cc: "concat (c # rest) = drop (nat i) buf"
      using r(2) by (simp add: c_def nat_add flip: drop_drop)
    have full: "int (length c) = cs" if "rest \<noteq> []"
    proof -
      from that obtain x where "x \<in> set rest" by (cases rest) auto
      with r(3) have "concat rest \<noteq> []" by auto
      with r(2) have "nat (i + cs) < length buf" by simp
      then show ?thesis using less.prems assms(1) by (simp add: c_def nat_add)
    qed
    have bl: "\<forall>c'\<in>set (butlast (c # rest)). int (length c') = cs"
      using r(4) full by auto
    have "chunkLoop buf cs i out = Some (out @ (c # rest))"
      using step r(1) by simp
    with cc cne cle r(3) bl show ?thesis by (intro exI [of _ "c # rest"]) auto
  qed
qed

lemma chunkBuffer_correct:
  assumes "0 < cs"
  shows "\<exists>chunks. chunkBuffer buf cs = Some chunks
           \<and> concat chunks = buf
           \<and> (\<forall>c\<in>set chunks. c \<noteq> [] \<and> int (length c) \<le> cs)
           \<and> (\<forall>c\<in>set (butlast chunks). int (length c) = cs)"
  using chunkLoop_correct [OF assms, of 0 buf "[]"] by (simp add: chunkBuffer_def)

text \<open>
  Claim C9. For every input buffer and every chunk size greater than 0, \<^verbatim>\<open>chunkBuffer\<close>
  returns; its chunks each have exactly the chunk size except possibly the last, which
  has a length between 1 and the chunk size; and their concatenation in order is the
  input buffer, so that no input byte is discarded.
\<close>

theorem chunkBuffer_keeps_every_byte:
  assumes "0 < chunkSize"
  shows "\<exists>chunks. chunkBuffer buffer chunkSize = Some chunks
           \<and> concat chunks = buffer
           \<and> (\<forall>c\<in>set (butlast chunks). int (length c) = chunkSize)
           \<and> (chunks \<noteq> [] \<longrightarrow>
                1 \<le> length (last chunks) \<and> int (length (last chunks)) \<le> chunkSize)"
proof -
  from chunkBuffer_correct [OF assms, of buffer]
  obtain chunks where c: "chunkBuffer buffer chunkSize = Some chunks"
    "concat chunks = buffer"
    "\<forall>c\<in>set chunks. c \<noteq> [] \<and> int (length c) \<le> chunkSize"
    "\<forall>c\<in>set (butlast chunks). int (length c) = chunkSize"
    by blast
  have "1 \<le> length (last chunks) \<and> int (length (last chunks)) \<le> chunkSize"
    if "chunks \<noteq> []"
  proof -
    from that have "last chunks \<in> set chunks" by simp
    with c(3) have "last chunks \<noteq> []" "int (length (last chunks)) \<le> chunkSize" by auto
    then show ?thesis by (cases "last chunks") auto
  qed
  with c show ?thesis by blast
qed

theorem chunkBuffer_keeps_every_byte_witness:
  "(0 :: int) < 3
   \<and> chunkBuffer [1, 2, 3, 4, 5, 6, 7] 3 = Some [[1, 2, 3], [4, 5, 6], [7]]
   \<and> concat [[1, 2, 3], [4, 5, 6], [7 :: byte]] = [1, 2, 3, 4, 5, 6, 7]"
proof -
  have e: "chunkBuffer [1, 2, 3, 4, 5, 6, 7] 3 = Some [[1, 2, 3], [4, 5, 6], [7]]"
    by code_simp
  from chunkBuffer_keeps_every_byte [of 3 "[1, 2, 3, 4, 5, 6, 7]"] e
  show ?thesis by simp
qed

subsection \<open>pointToCube\<close>

text \<open>
  Claim C6. For every anchor point \<open>(x, y, z)\<close> and every integer \<open>cubeIndex\<close>, the cube
  mesh generator returns exactly the 8 vertices \<open>(x,y,z)\<close>, \<open>(x+1,y,z)\<close>, \<open>(x,y+1,z)\<close>,
  \<open>(x+1,y+1,z)\<close>, \<open>(x,y,z+1)\<close>, \<open>(x+1,y,z+1)\<close>, \<open>(x,y+1,z+1)\<close>, \<open>(x+1,y+1,z+1)\<close> in
  that order, and exactly the 6 faces \<open>[1,2,4,3]\<close>, \<open>[3,4,8,7]\<close>, \<open>[7,8,6,5]\<close>,
  \<open>[5,6,2,1]\<close>, \<open>[3,7,5,1]\<close>, \<open>[8,4,2,6]\<close> with \<open>cubeIndex * 8\<close> added to every index.
\<close>

theorem pointToCube_mesh:
  "pointToCube (x, y, z) cubeIndex =
     \<lparr>vertices =
        [(x, y, z), (x + 1, y, z), (x, y + 1, z), (x + 1, y + 1, z),
         (x, y, z + 1), (x + 1, y, z + 1), (x, y + 1, z + 1), (x + 1, y + 1, z + 1)],
      faces =
        map (map (\<lambda>v. v + cubeIndex * 8))
          [[1, 2, 4, 3], [3, 4, 8, 7], [7, 8, 6, 5], [5, 6, 2, 1], [3, 7, 5, 1], [8, 4, 2, 6]]\<rparr>"
  by (simp add: pointToCube_def defaultCubeFaces_def Let_def)

subsection \<open>convertCub\<close>

text \<open>
  Claim C8. For every input buffer shorter than 12 bytes, the conversion fails with a
  range error raised while reading the three 32-bit dimension fields; the error is the
  result of the call, and neither an OBJ string nor an MTL string is produced.
\<close>

theorem convertCub_short_header:
  assumes "length data < 12"
  shows "convertCub maxArgs data name = Some (Inl RangeError)"
  using assms by (simp add: convertCub_def readUInt32LE_def)

theorem convertCub_short_header_witness:
  "length [1, 0, 0, 0, 1, 0, 0, 0, 1, 0, 0 :: byte] < 12
   \<and> convertCub 1000 [1, 0, 0, 0, 1, 0, 0, 0, 1, 0, 0] ''cube'' = Some (Inl RangeError)"
  using convertCub_short_header [of "[1, 0, 0, 0, 1, 0, 0, 0, 1, 0, 0]" 1000 "''cube''"] by simp

subsection \<open>generateMTL\<close>

lemma rounding_table: "list_all roundsExactly [0..255]"
  by code_simp

lemma division_table: "list_all correctlyRounded [1..255]"
  by code_simp

lemma div255_correctly_rounded:
  assumes "1 \<le> i" "i \<le> 255"
  shows "2 ^ 52 \<le> mant (div255 i)" "mant (div255 i) < 2 ^ 53"
    "2 * \<bar>255 * mant (div255 i) - i * 2 ^ expo (div255 i)\<bar> \<le> 255"
proof -
  from assms have "i \<in> set [1..255]" by simp
  with division_table have "correctlyRounded i" unfolding list_all_iff by blast
  then show "2 ^ 52 \<le> mant (div255 i)" "mant (div255 i) < 2 ^ 53"
    "2 * \<bar>255 * mant (div255 i) - i * 2 ^ expo (div255 i)\<bar> \<le> 255"
    by (simp_all add: correctlyRounded_def Let_def)
qed

lemma toFixedInt_byte:
  assumes "0 \<le> i" "i \<le> 255"
  shows "toFixedInt (if i = 0 then zeroDouble else div255 i) precision = nearestMillionth i 255"
proof -
  from assms have "i \<in> set [0..255]" by simp
  with rounding_table have "roundsExactly i" unfolding list_all_iff by blast
  then show ?thesis by (simp add: roundsExactly_def)
qed

lemma showDigits_length:
  "0 < k \<Longrightarrow> n < 10 ^ k \<Longrightarrow> length (showDigits n) \<le> k"
proof (induction n arbitrary: k rule: showDigits.induct)
  case (1 n)
  show ?case
  proof (cases "n < 10")
    case True
    with "1.prems" show ?thesis by (subst showDigits.simps) simp
  next
    case False
    with "1.prems" obtain j where j: "k = Suc j" "0 < j"
      by (cases k; cases "k - 1") (auto simp: not_less)
    from "1.prems" j have "n div 10 < 10 ^ j" by simp
    from "1.IH" [OF False j(2) this] False j show ?thesis
      by (subst showDigits.simps) simp
  qed
qed

lemma showDigits_nonempty: "showDigits n \<noteq> []"
  by (subst showDigits.simps) simp

lemma showDigits_0: "showDigits 0 = ''0''"
  by code_simp

lemma fixedDigits_six:
  assumes "0 \<le> n" "n \<le> 10 ^ 6"
  shows "fixedDigits n 6 =
     showDigits (n div 10 ^ 6) @ ''.'' @
       replicate (6 - length (showDigits (n mod 10 ^ 6))) (CHR ''0'') @ showDigits (n mod 10 ^ 6)"
proof (cases "n = 10 ^ 6")
  case True
  have "fixedDigits 1000000 6 =
     showDigits (1000000 div 10 ^ 6) @ ''.'' @
       replicate (6 - length (showDigits (1000000 mod 10 ^ 6))) (CHR ''0'')
       @ showDigits (1000000 mod 10 ^ 6)"
    by code_simp
  with True show ?thesis by simp
next
  case False
  with assms have lt: "n < 10 ^ 6" by simp
  with assms have dm: "n div 1000000 = 0" "n mod 1000000 = n" by simp_all
  define m where "m = showDigits n"
  have m0: "(if n = 0 then ''0'' else showDigits n) = m"
    using showDigits_0 by (simp add: m_def)
  have len: "length m \<le> 6" using showDigits_length [of 6 n] lt by (simp add: m_def)
  have ne: "m \<noteq> []" unfolding m_def by (rule showDigits_nonempty)
  have r: "replicate (7 - length m) (CHR ''0'') = CHR ''0'' # replicate (6 - length m) (CHR ''0'')"
    using len by (simp add: Suc_diff_le flip: replicate_Suc)
  have "fixedDigits n 6 = CHR ''0'' # CHR ''.'' # replicate (6 - length m) (CHR ''0'') @ m"
    using len ne r by (simp add: fixedDigits_def m0 Let_def)
  then show ?thesis using showDigits_0 by (simp add: dm flip: m_def)
qed

lemma nearestMillionth_byte:
  assumes "0 \<le> i" "i \<le> 255"
  shows "0 \<le> nearestMillionth i 255" "nearestMillionth i 255 \<le> 10 ^ 6"
proof -
  from assms show "0 \<le> nearestMillionth i 255"
    by (simp add: nearestMillionth_def pos_imp_zdiv_nonneg_iff)
  from assms have "2 * i * 10 ^ 6 + 255 \<le> 510 * 10 ^ 6 + 255" by simp
  then have "(2 * i * 10 ^ 6 + 255) div 510 \<le> (510 * 10 ^ 6 + 255) div 510"
    by (rule zdiv_mono1) simp
  then show "nearestMillionth i 255 \<le> 10 ^ 6"
    by (simp add: nearestMillionth_def)
qed

lemma component_sixPlaces: "component x = sixPlaces (uint x) 255"
proof -
  have b: "0 \<le> uint x" "uint x \<le> 255"
    using uint_lt2p [of x] by simp_all
  have z: "(x = 0) = (uint x = 0)" by (simp add: uint_0_iff)
  have "component x = fixedDigits (nearestMillionth (uint x) 255) 6"
    using toFixedInt_byte [OF b] by (simp add: component_def toFixed_def z precision_def)
  also have "\<dots> = sixPlaces (uint x) 255"
    using fixedDigits_six [OF nearestMillionth_byte [OF b]] by (simp add: sixPlaces_def Let_def)
  finally show ?thesis .
qed

lemma component_fun: "component = (\<lambda>x. sixPlaces (uint x) 255)"
  by (rule ext) (rule component_sixPlaces)

lemma map_zip_upt:
  "length ys = n \<Longrightarrow> map (\<lambda>(y, i). f y i) (zip ys [0..<n]) = map (\<lambda>i. f (ys ! i) i) [0..<n]"
  by (auto simp: list_eq_iff_nth_eq)

lemma showInt_nonneg: "0 \<le> i \<Longrightarrow> showInt i = showDigits i"
  by (simp add: showInt_def)

text \<open>
  Claim C1, as the code has it. For every list of colours and base name, the material
  renderer emits one block per colour, in the order of the list, whose \<^verbatim>\<open>Kd\<close> line has
  each component equal to the byte value divided by 255 and written with 6 decimal
  places. That holds for every byte value, 0 included: byte 0 renders \<^verbatim>\<open>0.000000\<close>, byte
  255 renders \<^verbatim>\<open>1.000000\<close> and byte 128 renders \<^verbatim>\<open>0.501961\<close>.
\<close>

theorem generateMTL_six_places:
  "generateMTL colors name =
     ''# CUB to OBJ v0.0.1\<newline>''
     @ join ''\<newline>''
         (map (\<lambda>i. ''newmtl '' @ name @ ''-mat-'' @ showDigits (int i) @ ''\<newline>''
                   @ ''Kd '' @ join '' '' (map (\<lambda>x. sixPlaces (uint x) 255) (colors ! i))
                   @ ''\<newline>'')
            [0..<length colors])
   \<and> component 0 = ''0.000000''
   \<and> component 255 = ''1.000000''
   \<and> component 128 = ''0.501961''"
proof -
  have blocks: "map (\<lambda>i. renderMaterial name (zeroToOne colors ! i) i) [0..<length colors] =
      map (\<lambda>i. ''newmtl '' @ name @ ''-mat-'' @ showDigits (int i) @ ''\<newline>''
                   @ ''Kd '' @ join '' '' (map (\<lambda>x. sixPlaces (uint x) 255) (colors ! i))
                   @ ''\<newline>'')
        [0..<length colors]"
    by (rule map_cong [OF refl])
      (simp add: renderMaterial_def matName_def zeroToOne_def showInt_nonneg component_fun)
  have "generateMTL colors name =
     ''# CUB to OBJ v0.0.1\<newline>''
     @ join ''\<newline>'' (map (\<lambda>i. renderMaterial name (zeroToOne colors ! i) i) [0..<length colors])"
    by (simp add: generateMTL_def version_def map_zip_upt zeroToOne_def)
  moreover have "component 0 = ''0.000000''" by code_simp
  moreover have "component 255 = ''1.000000''" by code_simp
  moreover have "component 128 = ''0.501961''" by code_simp
  ultimately show ?thesis using blocks by simp
qed

text \<open>
  Claim C1 as stated fails: a component whose byte value is 0 is not written \<^verbatim>\<open>0\<close>. The
  colour (255, 0, 0) gets the line \<^verbatim>\<open>Kd 1.000000 0.000000 0.000000\<close>.
\<close>

theorem generateMTL_zero_byte_counterexample:
  "component 0 \<noteq> ''0''
   \<and> generateMTL [[255, 0, 0]] ''m'' =
       ''# CUB to OBJ v0.0.1\<newline>newmtl m-mat-0\<newline>Kd 1.000000 0.000000 0.000000\<newline>''"
proof -
  have "component 0 = ''0.000000''" by code_simp
  moreover have "generateMTL [[255, 0, 0]] ''m'' =
       ''# CUB to OBJ v0.0.1\<newline>newmtl m-mat-0\<newline>Kd 1.000000 0.000000 0.000000\<newline>''"
    by code_simp
  ultimately show ?thesis by simp
qed

subsection \<open>The texts as lists of lines\<close>

subsection \<open>Texts and their lines\<close>

lemma unlines_append: "unlines (xs @ ys) = unlines xs @ unlines ys"
  by (simp add: unlines_def)

lemma unlines_Cons: "unlines (l # ls) = l @ CHR ''\<newline>'' # unlines ls"
  by (simp add: unlines_def)

lemma unlines_Nil: "unlines [] = []"
  by (simp add: unlines_def)

lemma join_unlines: "join ''\<newline>'' (map unlines bs) = unlines (blankSeparated bs)"
  by (induction bs rule: blankSeparated.induct) (simp_all add: unlines_append unlines_def)

lemma set_blankSeparated_upper: "set (blankSeparated bs) \<subseteq> insert [] (\<Union> (set ` set bs))"
  by (induction bs rule: blankSeparated.induct) auto

lemma set_blankSeparated_lower: "b \<in> set bs \<Longrightarrow> set b \<subseteq> set (blankSeparated bs)"
  by (induction bs rule: blankSeparated.induct) auto

lemma linesOf_nonempty: "linesOf t \<noteq> []"
  by (induction t) (auto split: list.splits)

lemma linesOf_split: "linesOf (xs @ CHR ''\<newline>'' # ys) = linesOf xs @ linesOf ys"
proof (induction xs)
  case Nil
  show ?case by simp
next
  case (Cons c xs)
  obtain l ls where "linesOf xs = l # ls"
    using linesOf_nonempty [of xs] by (cases "linesOf xs") auto
  with Cons show ?case by simp
qed

lemma linesOf_line: "CHR ''\<newline>'' \<notin> set l \<Longrightarrow> linesOf l = [l]"
  by (induction l) auto

lemma linesOf_unlines:
  "\<forall>l\<in>set ls. CHR ''\<newline>'' \<notin> set l \<Longrightarrow> linesOf (unlines ls) = ls @ [[]]"
proof (induction ls)
  case Nil
  show ?case by (simp add: unlines_Nil)
next
  case (Cons l ls)
  then show ?case by (simp add: unlines_Cons linesOf_split linesOf_line)
qed

lemma line_in_linesOf_unlines:
  assumes "l \<in> set ls" "CHR ''\<newline>'' \<notin> set l"
  shows "l \<in> set (linesOf (unlines ls))"
  using assms(1)
proof (induction ls)
  case Nil
  then show ?case by simp
next
  case (Cons a ls)
  show ?case
  proof (cases "l = a")
    case True
    with assms(2) show ?thesis by (simp add: unlines_Cons linesOf_split linesOf_line)
  next
    case False
    with Cons show ?thesis by (simp add: unlines_Cons linesOf_split)
  qed
qed

lemma showDigits_chars: "set (showDigits n) \<subseteq> set ''0123456789''"
proof (induction n rule: showDigits.induct)
  case (1 n)
  have d: "digitChar m \<in> set ''0123456789''" if "m < 10" for m
  proof -
    from that have "nat m < length ''0123456789''" by simp
    then show ?thesis unfolding digitChar_def by (rule nth_mem)
  qed
  show ?case
  proof (cases "n < 10")
    case True
    with d [of n] show ?thesis by (subst showDigits.simps) simp
  next
    case False
    have "n mod 10 < 10" by simp
    from d [OF this] "1.IH" [OF False] False show ?thesis
      by (subst showDigits.simps) simp
  qed
qed

lemma showInt_line: "CHR ''\<newline>'' \<notin> set (showInt i)"
  using showDigits_chars [of i] showDigits_chars [of "- i"] by (auto simp: showInt_def)

lemma jsToString_line: "CHR ''\<newline>'' \<notin> set (jsToString v)"
  by (cases v) (simp_all add: showInt_line)

lemma join_line:
  "CHR ''\<newline>'' \<notin> set sep \<Longrightarrow> \<forall>s\<in>set xs. CHR ''\<newline>'' \<notin> set s
     \<Longrightarrow> CHR ''\<newline>'' \<notin> set (join sep xs)"
  by (induction sep xs rule: join.induct) auto

lemma vertexText_line: "CHR ''\<newline>'' \<notin> set (vertexText p)"
  by (cases p) (simp add: showInt_line)

lemma faceText_line: "CHR ''\<newline>'' \<notin> set (faceText f)"
  using join_line [of "'' ''" "map showInt f"] by (simp add: faceText_def showInt_line)

lemma objectLines_line:
  assumes "CHR ''\<newline>'' \<notin> set name" "l \<in> set (objectLines name blk)"
  shows "CHR ''\<newline>'' \<notin> set l"
  using assms by (auto simp: objectLines_def jsToString_line showInt_line faceText_line)

lemma vertexLine_text: "vertexLine p = vertexText p @ ''\<newline>''"
  by (cases p) simp

lemma faceLine_text: "faceLine f = faceText f @ ''\<newline>''"
  by (simp add: faceLine_def faceText_def)

lemma concat_lines: "concat (map (\<lambda>x. f x @ ''\<newline>'') xs) = unlines (map f xs)"
  by (simp add: unlines_def comp_def)

subsection \<open>The texts that are written\<close>

lemma renderObject_eq:
  "renderObject maxArgs name blk =
     (if int (length (ob_cubes blk)) \<le> maxArgs then Inr (unlines (objectLines name blk))
      else Inl RangeError)"
  by (simp add: renderObject_def allVertices_def allFaces_def spreadConcat_def objectLines_def
      unlines_append unlines_Cons unlines_Nil matName_def vertexLine_text [abs_def]
      faceLine_text [abs_def] concat_lines)

lemma objectTexts_eq:
  "objectTexts maxArgs name blks =
     (if \<forall>blk\<in>set blks. int (length (ob_cubes blk)) \<le> maxArgs
      then Inr (map (\<lambda>blk. unlines (objectLines name blk)) blks)
      else Inl RangeError)"
  by (induction blks) (auto simp: renderObject_eq)

lemma generateOBJ_eq:
  "generateOBJ maxArgs w d h cis name =
     (if \<forall>blk\<in>set (objects w d h cis). int (length (ob_cubes blk)) \<le> maxArgs
      then Inr (unlines ([''# CUB to OBJ v0.0.1'', ''mtllib '' @ name @ ''.mtl'']
                  @ blankSeparated (map (objectLines name) (objects w d h cis))))
      else Inl RangeError)"
proof -
  have "join ''\<newline>'' (map (\<lambda>blk. unlines (objectLines name blk)) (objects w d h cis))
      = unlines (blankSeparated (map (objectLines name) (objects w d h cis)))"
    using join_unlines [of "map (objectLines name) (objects w d h cis)"] by (simp add: comp_def)
  then show ?thesis
    by (simp add: generateOBJ_def objectTexts_eq version_def unlines_append unlines_Cons unlines_Nil)
qed

lemma generateMTL_lines:
  "generateMTL colors name =
     unlines (''# CUB to OBJ v0.0.1''
              # blankSeparated (map (materialLines name colors) [0..<length colors]))"
proof -
  have "map (\<lambda>i. renderMaterial name (zeroToOne colors ! i) i) [0..<length colors]
      = map (\<lambda>i. unlines (materialLines name colors i)) [0..<length colors]"
    by (rule map_cong [OF refl])
      (simp add: renderMaterial_def matName_def zeroToOne_def materialLines_def unlines_Cons
        unlines_Nil)
  moreover have "join ''\<newline>'' (map (\<lambda>i. unlines (materialLines name colors i)) [0..<length colors])
      = unlines (blankSeparated (map (materialLines name colors) [0..<length colors]))"
    using join_unlines [of "map (materialLines name colors) [0..<length colors]"]
    by (simp add: comp_def)
  ultimately have "join ''\<newline>'' (map (\<lambda>i. renderMaterial name (zeroToOne colors ! i) i) [0..<length colors])
      = unlines (blankSeparated (map (materialLines name colors) [0..<length colors]))"
    by (simp only:)
  then show ?thesis
    by (simp add: generateMTL_def version_def map_zip_upt zeroToOne_def unlines_Cons)
qed

lemma spread_pools:
  "map (\<lambda>blk. spreadConcat maxArgs (map f (ob_cubes blk))) blks = map Inr pools
     \<Longrightarrow> concat pools = concat (map f (concat (map ob_cubes blks)))"
proof (induction blks arbitrary: pools)
  case Nil
  then show ?case by simp
next
  case (Cons blk blks)
  then obtain p ps where p: "pools = p # ps" by (cases pools) auto
  with Cons.prems have "spreadConcat maxArgs (map f (ob_cubes blk)) = Inr p"
    and r: "map (\<lambda>blk. spreadConcat maxArgs (map f (ob_cubes blk))) blks = map Inr ps"
    by auto
  then have "p = concat (map f (ob_cubes blk))"
    by (auto simp: spreadConcat_def split: if_splits)
  with Cons.IH [OF r] p show ?case by simp
qed

lemma spread_pools_exist:
  assumes "\<forall>blk\<in>set blks. int (length (ob_cubes blk)) \<le> maxArgs"
  shows "map (\<lambda>blk. spreadConcat maxArgs (map f (ob_cubes blk))) blks
     = map Inr (map (\<lambda>blk. concat (map f (ob_cubes blk))) blks)"
  using assms by (simp add: spreadConcat_def)

lemma usemtl_of_objectLines:
  assumes "l \<in> set (objectLines name blk)" "take 7 l = ''usemtl ''"
  shows "l = ''usemtl '' @ name @ ''-mat-'' @ jsToString (ob_colorIndex blk)"
  using assms by (auto simp: objectLines_def faceText_def)

lemma obj_lines:
  assumes "CHR ''\<newline>'' \<notin> set name"
  shows "linesOf (unlines ([''# CUB to OBJ v0.0.1'', ''mtllib '' @ name @ ''.mtl'']
                  @ blankSeparated (map (objectLines name) blks)))
       = [''# CUB to OBJ v0.0.1'', ''mtllib '' @ name @ ''.mtl'']
           @ blankSeparated (map (objectLines name) blks) @ [[]]"
proof -
  have "CHR ''\<newline>'' \<notin> set l" if "l \<in> set (blankSeparated (map (objectLines name) blks))" for l
  proof -
    from that set_blankSeparated_upper [of "map (objectLines name) blks"]
    have "l = [] \<or> (\<exists>blk\<in>set blks. l \<in> set (objectLines name blk))" by auto
    with assms show ?thesis by (auto dest: objectLines_line)
  qed
  with assms have "\<forall>l\<in>set ([''# CUB to OBJ v0.0.1'', ''mtllib '' @ name @ ''.mtl'']
                  @ blankSeparated (map (objectLines name) blks)). CHR ''\<newline>'' \<notin> set l"
    by auto
  from linesOf_unlines [OF this] show ?thesis by simp
qed

lemma usemtl_line_source:
  assumes "CHR ''\<newline>'' \<notin> set name"
    and "l \<in> set (linesOf (unlines ([''# CUB to OBJ v0.0.1'', ''mtllib '' @ name @ ''.mtl'']
                  @ blankSeparated (map (objectLines name) blks))))"
    and "take 7 l = ''usemtl ''"
  shows "\<exists>blk\<in>set blks. l = ''usemtl '' @ name @ ''-mat-'' @ jsToString (ob_colorIndex blk)"
proof -
  from assms(2) have "l \<in> set ([''# CUB to OBJ v0.0.1'', ''mtllib '' @ name @ ''.mtl'']
           @ blankSeparated (map (objectLines name) blks) @ [[]])"
    by (simp only: obj_lines [OF assms(1)])
  with assms(3) have "l \<in> set (blankSeparated (map (objectLines name) blks))" by auto
  with set_blankSeparated_upper [of "map (objectLines name) blks"]
  have "l = [] \<or> (\<exists>blk\<in>set blks. l \<in> set (objectLines name blk))" by auto
  with assms(3) obtain blk where blk: "blk \<in> set blks" "l \<in> set (objectLines name blk)"
    by auto
  from usemtl_of_objectLines [OF blk(2) assms(3)] blk(1) show ?thesis by (rule rev_bexI [rotated])
qed

lemma newmtl_line:
  assumes "CHR ''\<newline>'' \<notin> set name" "i < length colors"
  shows "''newmtl '' @ name @ ''-mat-'' @ showInt (int i) \<in> set (linesOf (generateMTL colors name))"
proof -
  have "materialLines name colors i \<in> set (map (materialLines name colors) [0..<length colors])"
    using assms(2) by simp
  from set_blankSeparated_lower [OF this]
  have "''newmtl '' @ name @ ''-mat-'' @ showInt (int i)
      \<in> set (''# CUB to OBJ v0.0.1''
              # blankSeparated (map (materialLines name colors) [0..<length colors]))"
    by (auto simp: materialLines_def)
  moreover have "CHR ''\<newline>'' \<notin> set (''newmtl '' @ name @ ''-mat-'' @ showInt (int i))"
    using assms(1) by (simp add: showInt_line)
  ultimately show ?thesis
    unfolding generateMTL_lines by (rule line_in_linesOf_unlines)
qed

lemma usemtl_defined:
  assumes "CHR ''\<newline>'' \<notin> set name"
    and "\<forall>blk\<in>set blks. \<exists>i<length colors. ob_colorIndex blk = Some (int i)"
    and "l \<in> set (linesOf (unlines ([''# CUB to OBJ v0.0.1'', ''mtllib '' @ name @ ''.mtl'']
                  @ blankSeparated (map (objectLines name) blks))))"
    and "take 7 l = ''usemtl ''"
  shows "''newmtl '' @ drop 7 l \<in> set (linesOf (generateMTL colors name))"
proof -
  from usemtl_line_source [OF assms(1,3,4)] obtain blk where
    blk: "blk \<in> set blks" "l = ''usemtl '' @ name @ ''-mat-'' @ jsToString (ob_colorIndex blk)"
    by auto
  from assms(2) blk(1) obtain i where i: "i < length colors" "ob_colorIndex blk = Some (int i)"
    by auto
  from blk(2) i(2) have "drop 7 l = name @ ''-mat-'' @ showInt (int i)" by simp
  with newmtl_line [OF assms(1) i(1)] show ?thesis by simp
qed

lemma vertexLineCount_unlines:
  "vertexLineCount (unlines ls) = sum_list (map vertexLineCount ls)"
proof (induction ls)
  case Nil
  show ?case by (simp add: unlines_Nil vertexLineCount_def isVertexLine_def)
next
  case (Cons l ls)
  have "vertexLineCount (unlines (l # ls)) = vertexLineCount l + vertexLineCount (unlines ls)"
    by (simp add: unlines_Cons vertexLineCount_def linesOf_split)
  with Cons show ?case by simp
qed

lemma vertexLineCount_blankSeparated:
  "sum_list (map vertexLineCount (blankSeparated bs))
     = sum_list (map (\<lambda>b. sum_list (map vertexLineCount b)) bs)"
  by (induction bs rule: blankSeparated.induct)
    (simp_all add: vertexLineCount_def isVertexLine_def)

lemma vertexLineCount_vertexText: "vertexLineCount (vertexText p) = 1"
proof -
  have "linesOf (vertexText p) = [vertexText p]"
    by (rule linesOf_line) (rule vertexText_line)
  moreover have "isVertexLine (vertexText p)"
    by (cases p) (simp add: isVertexLine_def)
  ultimately show ?thesis by (simp add: vertexLineCount_def)
qed

lemma vertexLineCount_objectLines:
  "length (concat (map vertices (ob_cubes blk)))
     \<le> sum_list (map vertexLineCount (objectLines name blk))"
proof -
  have "sum_list (map vertexLineCount (map vertexText ps)) = length ps" for ps
    by (induction ps) (simp_all add: vertexLineCount_vertexText)
  then show ?thesis by (simp add: objectLines_def)
qed

lemma length_pools:
  "sum_list (map (\<lambda>blk. length (concat (map f (ob_cubes blk)))) blks)
     = length (concat (map f (concat (map ob_cubes blks))))"
  by (induction blks) simp_all

lemma vertex_lines_of_text:
  assumes "generateOBJ maxArgs w d h cis name = Inr text"
  shows "length (concat (map vertices (emittedCubes w d h cis))) \<le> vertexLineCount text"
proof -
  let ?blks = "objects w d h cis"
  from assms have "text = unlines ([''# CUB to OBJ v0.0.1'', ''mtllib '' @ name @ ''.mtl'']
                  @ blankSeparated (map (objectLines name) ?blks))"
    by (simp add: generateOBJ_eq split: if_splits)
  then have "sum_list (map (\<lambda>blk. sum_list (map vertexLineCount (objectLines name blk))) ?blks)
      \<le> vertexLineCount text"
    by (simp add: vertexLineCount_unlines vertexLineCount_blankSeparated comp_def)
  moreover have "sum_list (map (\<lambda>blk. length (concat (map vertices (ob_cubes blk)))) ?blks)
      \<le> sum_list (map (\<lambda>blk. sum_list (map vertexLineCount (objectLines name blk))) ?blks)"
    by (rule sum_list_mono) (rule vertexLineCount_objectLines)
  ultimately show ?thesis by (simp add: length_pools emittedCubes_def)
qed

subsection \<open>Dictionaries\<close>

lemma objSet_keys:
  "map fst (objSet ob k v) = (if k \<in> fst ` set ob then map fst ob else map fst ob @ [k])"
  by (induction ob k v rule: objSet.induct) auto

lemma objGet_objSet:
  "objGet (objSet ob k v) k' = (if k' = k then Some v else objGet ob k')"
  by (induction ob k v rule: objSet.induct) (auto simp: objGet_def)

lemma objModify_keys: "map fst (objModify ob k f) = map fst ob"
  by (induction ob) (auto simp: objModify_def)

lemma objGet_objModify:
  "objGet (objModify ob k f) k' = (if k' = k then map_option f (objGet ob k) else objGet ob k')"
  by (induction ob) (auto simp: objModify_def objGet_def)

lemma objGet_None_iff: "objGet ob k = None \<longleftrightarrow> k \<notin> fst ` set ob"
  by (simp add: objGet_def map_of_eq_None_iff)

lemma set_keyOrder: "set (keyOrder f ks) = set ks"
  by (auto simp: keyOrder_def)

lemma distinct_keyOrder: "distinct ks \<Longrightarrow> distinct (keyOrder f ks)"
  by (auto simp: keyOrder_def)

lemma length_keyOrder: "length (keyOrder f ks) = length ks"
proof -
  have "length (filter (\<lambda>k. f k \<noteq> None) ks) + length (filter (\<lambda>k. f k = None) ks) = length ks"
    using sum_length_filter_compl [of "\<lambda>k. f k \<noteq> None" ks] by simp
  then show ?thesis by (simp add: keyOrder_def)
qed

lemma keyOrder_indices_sorted:
  "sorted (map (\<lambda>k. the (f k)) (filter (\<lambda>k. f k \<noteq> None) (keyOrder f ks)))"
proof -
  have "filter (\<lambda>k. f k \<noteq> None) (keyOrder f ks)
        = sort_key (\<lambda>k. the (f k)) (filter (\<lambda>k. f k \<noteq> None) ks)"
    by (auto simp: keyOrder_def filter_sort filter_empty_conv)
  then show ?thesis by simp
qed

subsection \<open>firstSeen\<close>

lemma firstSeen_snoc:
  "firstSeen (xs @ [x]) = (if x \<in> set (firstSeen xs) then firstSeen xs else firstSeen xs @ [x])"
  by (simp add: firstSeen_def)

lemma firstSeen_Nil: "firstSeen [] = []"
  by (simp add: firstSeen_def)

lemma set_firstSeen: "set (firstSeen xs) = set xs"
  by (induction xs rule: rev_induct) (auto simp: firstSeen_snoc firstSeen_Nil)

lemma distinct_firstSeen: "distinct (firstSeen xs)"
  by (induction xs rule: rev_induct) (auto simp: firstSeen_snoc firstSeen_Nil)

subsection \<open>generateOBJ: the scan of the grid\<close>

lemma foldl_concat_map:
  "foldl f a (concat (map g xs)) = foldl (\<lambda>a x. foldl f a (g x)) a xs"
  by (induction xs arbitrary: a) auto

lemma scanGrid_fold:
  "scanGrid w d h cis = foldl (scanAt w d h cis) [] (gridPoints w d h)"
proof -
  have z: "foldl (scanAt w d h cis) a (map (\<lambda>z. (x, y, z)) zs)
           = foldl (scanPoint w d h cis x y) a zs" for a x y zs
    by (induction zs arbitrary: a) auto
  show ?thesis
    unfolding scanGrid_def gridPoints_def foldl_concat_map z
    by (simp add: loopY_def [abs_def] loopZ_def [abs_def])
qed

lemma scanAt_keys:
  "map fst (scanAt w d h cis b p) =
     (if colorAt w d h cis p = Some (- 1) \<or> colorAt w d h cis p \<in> fst ` set b
      then map fst b else map fst b @ [colorAt w d h cis p])"
  by (cases p)
    (auto simp: scanPoint_def Let_def objModify_keys objSet_keys objGet_None_iff)

lemma scanAt_get:
  "objGet (scanAt w d h cis b p) k =
     (if colorAt w d h cis p = Some (- 1) \<or> k \<noteq> colorAt w d h cis p then objGet b k
      else Some (case objGet b k of
                   None \<Rightarrow> \<lparr>colorIndex = k, points = [p]\<rparr>
                 | Some g \<Rightarrow> g\<lparr>points := points g @ [p]\<rparr>))"
  by (cases p)
    (auto simp: scanPoint_def Let_def objGet_objModify objGet_objSet split: option.splits)

lemma scan_invariant:
  "map fst (foldl (scanAt w d h cis) [] ps)
     = firstSeen (filter (\<lambda>c. c \<noteq> Some (- 1)) (map (colorAt w d h cis) ps))
   \<and> (\<forall>k\<in>fst ` set (foldl (scanAt w d h cis) [] ps).
        objGet (foldl (scanAt w d h cis) [] ps) k
          = Some \<lparr>colorIndex = k, points = filter (\<lambda>p. colorAt w d h cis p = k) ps\<rparr>)"
proof (induction ps rule: rev_induct)
  case Nil
  show ?case by (simp add: firstSeen_Nil)
next
  case (snoc p ps)
  define b where "b = foldl (scanAt w d h cis) [] ps"
  define c where "c = colorAt w d h cis p"
  define seen where "seen = filter (\<lambda>c. c \<noteq> Some (- 1)) (map (colorAt w d h cis) ps)"
  from snoc have keys: "map fst b = firstSeen seen"
    and vals: "\<And>k. k \<in> fst ` set b \<Longrightarrow>
        objGet b k = Some \<lparr>colorIndex = k, points = filter (\<lambda>p. colorAt w d h cis p = k) ps\<rparr>"
    by (auto simp: b_def seen_def)
  have kset: "fst ` set b = set seen"
    using keys set_firstSeen [of seen] by (metis set_map)
  have step: "foldl (scanAt w d h cis) [] (ps @ [p]) = scanAt w d h cis b p"
    by (simp add: b_def)
  have k1: "map fst (scanAt w d h cis b p)
      = firstSeen (filter (\<lambda>c. c \<noteq> Some (- 1)) (map (colorAt w d h cis) (ps @ [p])))"
    using keys kset by (auto simp: scanAt_keys firstSeen_snoc set_firstSeen simp flip: c_def seen_def)
  have k2: "objGet (scanAt w d h cis b p) k
      = Some \<lparr>colorIndex = k, points = filter (\<lambda>p. colorAt w d h cis p = k) (ps @ [p])\<rparr>"
    if "k \<in> fst ` set (scanAt w d h cis b p)" for k
  proof (cases "c = Some (- 1) \<or> k \<noteq> c")
    case True
    have "k \<in> set (map fst (scanAt w d h cis b p))" using that by simp
    then have "k \<in> set (filter (\<lambda>c. c \<noteq> Some (- 1)) (map (colorAt w d h cis) (ps @ [p])))"
      unfolding k1 set_firstSeen .
    then have nk: "k \<noteq> Some (- 1)" by (auto split: if_splits)
    from True nk have kc: "k \<noteq> c" by auto
    have "fst ` set (scanAt w d h cis b p) = set (map fst (scanAt w d h cis b p))" by simp
    also have "\<dots> \<subseteq> insert c (fst ` set b)"
      unfolding scanAt_keys by (auto simp: c_def)
    finally have "k \<in> fst ` set b" using that kc by auto
    with vals True kc show ?thesis by (simp add: scanAt_get flip: c_def)
  next
    case False
    then have kc: "k = c" "c \<noteq> Some (- 1)" by auto
    show ?thesis
    proof (cases "c \<in> fst ` set b")
      case True
      with vals kc show ?thesis by (simp add: scanAt_get flip: c_def)
    next
      case False
      then have "objGet b c = None" by (simp add: objGet_None_iff)
      moreover from False kset kc have "filter (\<lambda>p. colorAt w d h cis p = c) ps = []"
        by (auto simp: seen_def filter_empty_conv)
      ultimately show ?thesis using kc by (simp add: scanAt_get flip: c_def)
    qed
  qed
  show ?case unfolding step using k1 k2 by blast
qed

lemma scan_keys:
  "map fst (foldl (scanAt w d h cis) [] ps)
     = firstSeen (filter (\<lambda>c. c \<noteq> Some (- 1)) (map (colorAt w d h cis) ps))"
  using scan_invariant [of w d h cis ps] by blast

lemma scan_vals:
  "k \<in> fst ` set (foldl (scanAt w d h cis) [] ps) \<Longrightarrow>
     objGet (foldl (scanAt w d h cis) [] ps) k
       = Some \<lparr>colorIndex = k, points = filter (\<lambda>p. colorAt w d h cis p = k) ps\<rparr>"
  using scan_invariant [of w d h cis ps] by blast

lemma objGroups_eq:
  "objGroups w d h cis =
     map (\<lambda>k. \<lparr>colorIndex = k,
               points = filter (\<lambda>p. colorAt w d h cis p = k) (gridPoints w d h)\<rparr>)
       (keyOrder arrayIndexOfNumber (discoveryOrder w d h cis))"
proof -
  define b where "b = foldl (scanAt w d h cis) [] (gridPoints w d h)"
  have keys: "map fst b = discoveryOrder w d h cis"
    by (simp add: b_def discoveryOrder_def scan_keys)
  have vals: "objGet b k = Some \<lparr>colorIndex = k,
        points = filter (\<lambda>p. colorAt w d h cis p = k) (gridPoints w d h)\<rparr>"
    if "k \<in> fst ` set b" for k
    using that unfolding b_def by (rule scan_vals)
  have "objValues arrayIndexOfNumber b =
     map (\<lambda>k. \<lparr>colorIndex = k,
               points = filter (\<lambda>p. colorAt w d h cis p = k) (gridPoints w d h)\<rparr>)
       (keyOrder arrayIndexOfNumber (map fst b))"
    unfolding objValues_def objKeys_def
    by (rule map_cong [OF refl]) (simp add: set_keyOrder vals)
  then show ?thesis
    by (simp add: objGroups_def scanGrid_fold keys flip: b_def)
qed

lemma objectsFrom_colorIndex: "map ob_colorIndex (objectsFrom c gs) = map colorIndex gs"
  by (induction gs arbitrary: c) (auto split: prod.splits)

lemma objects_colorIndex:
  "map ob_colorIndex (objects w d h cis) = keyOrder arrayIndexOfNumber (discoveryOrder w d h cis)"
  by (simp add: objects_def objectsFrom_colorIndex objGroups_eq comp_def)

lemma set_discoveryOrder:
  "set (discoveryOrder w d h cis) = colorAt w d h cis ` set (gridPoints w d h) - {Some (- 1)}"
  by (auto simp: discoveryOrder_def set_firstSeen)

lemma keyOrder_all_indices:
  assumes "\<forall>k\<in>set ks. f k \<noteq> None"
  shows "keyOrder f ks = sort_key (\<lambda>k. the (f k)) ks"
  using assms by (simp add: keyOrder_def filter_empty_conv)

text \<open>
  Claim C3, as the code has it. For every grid and per-cell colour index array, the scene
  assembler renders one object block per distinct non-excluded colour index, and the
  blocks are separated by a blank line: unless a colour group has more cubes than a call
  can take arguments, in which case the call throws a range error, the text is the two
  header lines followed by the lines of the blocks, every line ended by a line break,
  with one empty line between two consecutive blocks. The blocks do not appear in the
  order in which the scan discovers the indices: they appear in the order in which
  \<^verbatim>\<open>Object.values\<close> lists the keys of \<^verbatim>\<open>byColor\<close>, which puts the indices from 0 to
  \<open>2^32 - 2\<close> first, in ascending numeric order, and after them the other keys
  (\<^verbatim>\<open>undefined\<close>, or an integer outside that range) in discovery order. When every
  discovered index is in that range, the blocks are the discovered indices sorted
  ascending. When the base name has no line break, the lines of the text are exactly
  those lines.
\<close>

theorem object_blocks_in_key_order:
  "map ob_colorIndex (objects w d h cis) = keyOrder arrayIndexOfNumber (discoveryOrder w d h cis)
   \<and> distinct (map ob_colorIndex (objects w d h cis))
   \<and> set (map ob_colorIndex (objects w d h cis))
        = colorAt w d h cis ` set (gridPoints w d h) - {Some (- 1)}
   \<and> sorted (map (\<lambda>k. the (arrayIndexOfNumber k))
        (filter (\<lambda>k. arrayIndexOfNumber k \<noteq> None) (map ob_colorIndex (objects w d h cis))))
   \<and> ((\<forall>k\<in>set (discoveryOrder w d h cis). arrayIndexOfNumber k \<noteq> None) \<longrightarrow>
        map ob_colorIndex (objects w d h cis)
          = sort_key (\<lambda>k. the (arrayIndexOfNumber k)) (discoveryOrder w d h cis))
   \<and> generateOBJ maxArgs w d h cis name =
        (if \<forall>blk\<in>set (objects w d h cis). int (length (ob_cubes blk)) \<le> maxArgs
         then Inr (unlines ([''# CUB to OBJ v0.0.1'', ''mtllib '' @ name @ ''.mtl'']
                    @ blankSeparated (map (objectLines name) (objects w d h cis))))
         else Inl RangeError)
   \<and> (CHR ''\<newline>'' \<notin> set name \<longrightarrow>
        linesOf (unlines ([''# CUB to OBJ v0.0.1'', ''mtllib '' @ name @ ''.mtl'']
                    @ blankSeparated (map (objectLines name) (objects w d h cis))))
          = [''# CUB to OBJ v0.0.1'', ''mtllib '' @ name @ ''.mtl'']
              @ blankSeparated (map (objectLines name) (objects w d h cis)) @ [[]])"
proof -
  note eq = objects_colorIndex [of w d h cis]
  have "distinct (map ob_colorIndex (objects w d h cis))"
    unfolding eq by (simp add: distinct_keyOrder discoveryOrder_def distinct_firstSeen)
  moreover have "set (map ob_colorIndex (objects w d h cis))
        = colorAt w d h cis ` set (gridPoints w d h) - {Some (- 1)}"
    unfolding eq by (simp add: set_keyOrder set_discoveryOrder)
  moreover have "sorted (map (\<lambda>k. the (arrayIndexOfNumber k))
        (filter (\<lambda>k. arrayIndexOfNumber k \<noteq> None) (map ob_colorIndex (objects w d h cis))))"
    unfolding eq by (rule keyOrder_indices_sorted)
  moreover have "map ob_colorIndex (objects w d h cis)
          = sort_key (\<lambda>k. the (arrayIndexOfNumber k)) (discoveryOrder w d h cis)"
    if "\<forall>k\<in>set (discoveryOrder w d h cis). arrayIndexOfNumber k \<noteq> None"
    unfolding eq using that by (rule keyOrder_all_indices)
  moreover note generateOBJ_eq [of maxArgs w d h cis name]
  moreover have "linesOf (unlines ([''# CUB to OBJ v0.0.1'', ''mtllib '' @ name @ ''.mtl'']
                    @ blankSeparated (map (objectLines name) (objects w d h cis))))
          = [''# CUB to OBJ v0.0.1'', ''mtllib '' @ name @ ''.mtl'']
              @ blankSeparated (map (objectLines name) (objects w d h cis)) @ [[]]"
    if "CHR ''\<newline>'' \<notin> set name"
    using that by (rule obj_lines)
  ultimately show ?thesis using eq by blast
qed

theorem object_blocks_in_key_order_witness:
  "list_all (\<lambda>k. arrayIndexOfNumber k \<noteq> None) (discoveryOrder 2 1 2 [0, 1, 2, 3])
   \<and> map ob_colorIndex (objects 2 1 2 [0, 1, 2, 3])
        = sort_key (\<lambda>k. the (arrayIndexOfNumber k)) (discoveryOrder 2 1 2 [0, 1, 2, 3])
   \<and> list_all (\<lambda>blk. int (length (ob_cubes blk)) \<le> 1000) (objects 2 1 2 [0, 1, 2, 3])
   \<and> generateOBJ 1000 2 1 2 [0, 1, 2, 3] ''n'' =
        Inr (unlines ([''# CUB to OBJ v0.0.1'', ''mtllib '' @ ''n'' @ ''.mtl'']
               @ blankSeparated (map (objectLines ''n'') (objects 2 1 2 [0, 1, 2, 3]))))
   \<and> CHR ''\<newline>'' \<notin> set ''n''
   \<and> linesOf (unlines ([''# CUB to OBJ v0.0.1'', ''mtllib '' @ ''n'' @ ''.mtl'']
               @ blankSeparated (map (objectLines ''n'') (objects 2 1 2 [0, 1, 2, 3]))))
        = [''# CUB to OBJ v0.0.1'', ''mtllib '' @ ''n'' @ ''.mtl'']
            @ blankSeparated (map (objectLines ''n'') (objects 2 1 2 [0, 1, 2, 3])) @ [[]]"
proof -
  have d: "discoveryOrder 2 1 2 [0, 1, 2, 3] = [Some 0, Some 2, Some 1, Some 3]"
    by code_simp
  have h: "\<forall>k\<in>set (discoveryOrder 2 1 2 [0, 1, 2, 3]). arrayIndexOfNumber k \<noteq> None"
    unfolding d by (simp add: arrayIndexOfNumber_def)
  have g: "list_all (\<lambda>blk. int (length (ob_cubes blk)) \<le> 1000) (objects 2 1 2 [0, 1, 2, 3])"
    by code_simp
  then have g': "\<forall>blk\<in>set (objects 2 1 2 [0, 1, 2, 3]). int (length (ob_cubes blk)) \<le> 1000"
    unfolding list_all_iff .
  have n: "CHR ''\<newline>'' \<notin> set ''n''" by simp
  note t = object_blocks_in_key_order [of 2 1 2 "[0, 1, 2, 3]" 1000 "''n''"]
  from t [THEN conjunct2, THEN conjunct2, THEN conjunct2, THEN conjunct2, THEN conjunct1] h
  have e: "map ob_colorIndex (objects 2 1 2 [0, 1, 2, 3])
        = sort_key (\<lambda>k. the (arrayIndexOfNumber k)) (discoveryOrder 2 1 2 [0, 1, 2, 3])"
    by (rule mp)
  note o = t [THEN conjunct2, THEN conjunct2, THEN conjunct2, THEN conjunct2, THEN conjunct2,
      THEN conjunct1, unfolded if_P [OF g']]
  from t [THEN conjunct2, THEN conjunct2, THEN conjunct2, THEN conjunct2, THEN conjunct2,
      THEN conjunct2] n
  have l: "linesOf (unlines ([''# CUB to OBJ v0.0.1'', ''mtllib '' @ ''n'' @ ''.mtl'']
               @ blankSeparated (map (objectLines ''n'') (objects 2 1 2 [0, 1, 2, 3]))))
        = [''# CUB to OBJ v0.0.1'', ''mtllib '' @ ''n'' @ ''.mtl'']
            @ blankSeparated (map (objectLines ''n'') (objects 2 1 2 [0, 1, 2, 3])) @ [[]]"
    by (rule mp)
  from h have h': "list_all (\<lambda>k. arrayIndexOfNumber k \<noteq> None) (discoveryOrder 2 1 2 [0, 1, 2, 3])"
    unfolding list_all_iff .
  from h' e g o n l show ?thesis by (intro conjI)
qed

text \<open>
  Claim C3 as stated fails. In a grid of width 2, depth 1 and height 2 whose four cells
  have four different colours (indices 0, 1, 2, 3 in file order), the scan discovers the
  indices in the order 0, 2, 1, 3, and the blocks appear in the order 0, 1, 2, 3.
\<close>

theorem object_blocks_discovery_order_counterexample:
  "discoveryOrder 2 1 2 [0, 1, 2, 3] = [Some 0, Some 2, Some 1, Some 3]
   \<and> map ob_colorIndex (objects 2 1 2 [0, 1, 2, 3]) = [Some 0, Some 1, Some 2, Some 3]"
proof -
  have "discoveryOrder 2 1 2 [0, 1, 2, 3] = [Some 0, Some 2, Some 1, Some 3]"
    by code_simp
  moreover have "map ob_colorIndex (objects 2 1 2 [0, 1, 2, 3]) = [Some 0, Some 1, Some 2, Some 3]"
    by code_simp
  ultimately show ?thesis by simp
qed

subsection \<open>Cubes\<close>

lemma cubesOf_spec:
  "cubesOf c ps = (cs, n) \<Longrightarrow>
     n = c + int (length ps) \<and> length cs = length ps
     \<and> (\<forall>k<length ps. cs ! k = pointToCube (ps ! k) (c + int k))"
proof (induction ps arbitrary: c cs n)
  case Nil
  then show ?case by simp
next
  case (Cons p ps)
  obtain cs' n' where r: "cubesOf (c + 1) ps = (cs', n')" by (cases "cubesOf (c + 1) ps")
  from Cons.prems r have e: "cs = pointToCube p c # cs'" "n = n'" by (auto simp: Let_def)
  from Cons.IH [OF r] have ih: "n' = c + 1 + int (length ps)" "length cs' = length ps"
    "\<And>k. k < length ps \<Longrightarrow> cs' ! k = pointToCube (ps ! k) (c + 1 + int k)" by auto
  have "cs ! k = pointToCube ((p # ps) ! k) (c + int k)" if "k < length (p # ps)" for k
    using that e ih by (cases k) (auto simp: add.assoc)
  with e ih show ?case by simp
qed

lemma objectsFrom_cubes:
  "length (concat (map ob_cubes (objectsFrom c gs))) = length (concat (map points gs))
   \<and> (\<forall>k<length (concat (map points gs)).
        concat (map ob_cubes (objectsFrom c gs)) ! k
          = pointToCube (concat (map points gs) ! k) (c + int k))"
proof (induction gs arbitrary: c)
  case Nil
  show ?case by simp
next
  case (Cons g gs)
  obtain cs n where r: "cubesOf c (points g) = (cs, n)" by (cases "cubesOf c (points g)")
  from cubesOf_spec [OF r] have s: "n = c + int (length (points g))" "length cs = length (points g)"
    "\<And>k. k < length (points g) \<Longrightarrow> cs ! k = pointToCube (points g ! k) (c + int k)" by auto
  have e: "concat (map ob_cubes (objectsFrom c (g # gs)))
      = cs @ concat (map ob_cubes (objectsFrom n gs))"
    using r by simp
  from Cons.IH [of n] have ih:
    "length (concat (map ob_cubes (objectsFrom n gs))) = length (concat (map points gs))"
    "\<And>k. k < length (concat (map points gs)) \<Longrightarrow>
        concat (map ob_cubes (objectsFrom n gs)) ! k
          = pointToCube (concat (map points gs) ! k) (n + int k)" by auto
  have "(cs @ concat (map ob_cubes (objectsFrom n gs))) ! k
          = pointToCube ((points g @ concat (map points gs)) ! k) (c + int k)"
    if "k < length (points g @ concat (map points gs))" for k
  proof (cases "k < length (points g)")
    case True
    with s show ?thesis by (simp add: nth_append)
  next
    case False
    with that have "k - length (points g) < length (concat (map points gs))" by simp
    from ih(2) [OF this] False s show ?thesis by (simp add: nth_append)
  qed
  with ih(1) s(2) show ?case unfolding e by simp
qed

lemma emittedCubes_nth:
  "length (emittedCubes w d h cis) = length (emittedPoints w d h cis)"
  "k < length (emittedPoints w d h cis) \<Longrightarrow>
     emittedCubes w d h cis ! k = pointToCube (emittedPoints w d h cis ! k) (int k)"
  using objectsFrom_cubes [of 0 "objGroups w d h cis"]
  by (simp_all add: emittedCubes_def emittedPoints_def objects_def)

lemma pointToCube_faces:
  "f \<in> set (faces (pointToCube p j)) \<Longrightarrow> v \<in> set f \<Longrightarrow> 8 * j + 1 \<le> v \<and> v \<le> 8 * j + 8"
  by (auto simp: pointToCube_def defaultCubeFaces_def Let_def)

lemma pointToCube_vertices: "length (vertices (pointToCube p j)) = 8"
  by (simp add: pointToCube_def Let_def)

lemma length_concat_const:
  "(\<And>x. x \<in> set xs \<Longrightarrow> length (f x) = n) \<Longrightarrow> length (concat (map f xs)) = n * length xs"
  by (induction xs) auto

text \<open>
  Claim C7. For every grid, the cube counter increases by one with every cube of the
  whole rendering pass and is not reset between colour groups: the \<open>k\<close>-th emitted cube
  (counting from 0) is built with the counter at \<open>k\<close>. So every face index of the
  \<open>k\<close>-th emitted cube lies in the range from \<open>8k + 1\<close> to \<open>8k + 8\<close>; it is within the
  bounds of the concatenated vertex pool of all emitted cubes; and it is greater than
  every index used by a cube emitted earlier. The vertex pool is what the code gathers
  and writes: whenever \<open>allVertices\<close> returns a list for every object, these lists
  together are the vertices of the emitted cubes in emission order (and the lists of
  \<open>allFaces\<close> are their faces), and every text that \<open>generateOBJ\<close> returns has at least
  as many vertex lines as the face index.
\<close>

theorem face_indices_of_kth_cube:
  assumes "k < length (emittedCubes w d h cis)"
    and "f \<in> set (faces (emittedCubes w d h cis ! k))"
    and "v \<in> set f"
  shows "emittedCubes w d h cis ! k = pointToCube (emittedPoints w d h cis ! k) (int k)
    \<and> 8 * int k + 1 \<le> v \<and> v \<le> 8 * int k + 8
    \<and> v \<le> int (length (concat (map vertices (emittedCubes w d h cis))))
    \<and> (\<forall>j<k. \<forall>f'\<in>set (faces (emittedCubes w d h cis ! j)). \<forall>v'\<in>set f'. v' < v)
    \<and> (\<forall>pools. map (allVertices maxArgs) (objects w d h cis) = map Inr pools \<longrightarrow>
          concat pools = concat (map vertices (emittedCubes w d h cis))
          \<and> v \<le> int (length (concat pools)))
    \<and> (\<forall>gathered. map (allFaces maxArgs) (objects w d h cis) = map Inr gathered \<longrightarrow>
          concat gathered = concat (map faces (emittedCubes w d h cis)))
    \<and> (\<forall>out. generateOBJ maxArgs w d h cis name = Inr out \<longrightarrow>
          v \<le> int (vertexLineCount out))"
proof -
  let ?cs = "emittedCubes w d h cis" and ?ps = "emittedPoints w d h cis"
  have nth: "?cs ! j = pointToCube (?ps ! j) (int j)" if "j < length ?cs" for j
    using that by (simp add: emittedCubes_nth)
  from assms nth [OF assms(1)] have range: "8 * int k + 1 \<le> v" "v \<le> 8 * int k + 8"
    using pointToCube_faces [of f "?ps ! k" "int k" v] by auto
  have "length (vertices c) = 8" if "c \<in> set ?cs" for c
  proof -
    from that obtain j where "j < length ?cs" "c = ?cs ! j" by (auto simp: in_set_conv_nth)
    with nth show ?thesis by (simp add: pointToCube_vertices)
  qed
  then have pool: "length (concat (map vertices ?cs)) = 8 * length ?cs"
    by (rule length_concat_const)
  have bound: "v \<le> int (length (concat (map vertices ?cs)))"
    using range assms(1) unfolding pool by simp
  have earlier: "v' < v"
    if "j < k" "f' \<in> set (faces (?cs ! j))" "v' \<in> set f'" for j f' v'
  proof -
    from that(1) assms(1) have "j < length ?cs" by simp
    from nth [OF this] that have "v' \<le> 8 * int j + 8"
      using pointToCube_faces [of f' "?ps ! j" "int j" v'] by auto
    with range that(1) show ?thesis by simp
  qed
  have gathered: "concat pools = concat (map vertices ?cs)"
    if "map (allVertices maxArgs) (objects w d h cis) = map Inr pools" for pools
    using that spread_pools [of maxArgs vertices "objects w d h cis" pools]
    by (simp add: allVertices_def [abs_def] emittedCubes_def)
  have gatheredFaces: "concat fs = concat (map faces ?cs)"
    if "map (allFaces maxArgs) (objects w d h cis) = map Inr fs" for fs
    using that spread_pools [of maxArgs faces "objects w d h cis" fs]
    by (simp add: allFaces_def [abs_def] emittedCubes_def)
  have written: "v \<le> int (vertexLineCount out)"
    if "generateOBJ maxArgs w d h cis name = Inr out" for out
    using vertex_lines_of_text [OF that] bound by simp
  from gathered bound have gathered': "concat pools = concat (map vertices ?cs)
      \<and> v \<le> int (length (concat pools))"
    if "map (allVertices maxArgs) (objects w d h cis) = map Inr pools" for pools
    using that by simp
  from nth [OF assms(1)] range bound earlier gathered' gatheredFaces written
  show ?thesis by blast
qed

theorem face_indices_of_kth_cube_witness:
  "1 < length (emittedCubes 2 1 1 [1, 0])
   \<and> [9, 10, 12, 11] \<in> set (faces (emittedCubes 2 1 1 [1, 0] ! 1))
   \<and> emittedCubes 2 1 1 [1, 0] ! 1 = pointToCube (emittedPoints 2 1 1 [1, 0] ! 1) (int 1)
   \<and> (9 :: int) \<le> int (length (concat (map vertices (emittedCubes 2 1 1 [1, 0]))))
   \<and> map (allVertices 100) (objects 2 1 1 [1, 0]) =
        map Inr [[(1, 0, 0), (2, 0, 0), (1, 1, 0), (2, 1, 0),
                  (1, 0, 1), (2, 0, 1), (1, 1, 1), (2, 1, 1)],
                 [(0, 0, 0), (1, 0, 0), (0, 1, 0), (1, 1, 0),
                  (0, 0, 1), (1, 0, 1), (0, 1, 1), (1, 1, 1)]]
   \<and> concat (map vertices (emittedCubes 2 1 1 [1, 0])) =
        concat [[(1, 0, 0), (2, 0, 0), (1, 1, 0), (2, 1, 0),
                 (1, 0, 1), (2, 0, 1), (1, 1, 1), (2, 1, 1)],
                [(0, 0, 0), (1, 0, 0), (0, 1, 0), (1, 1, 0),
                 (0, 0, 1), (1, 0, 1), (0, 1, 1), (1, 1, 1)]]
   \<and> map (allFaces 100) (objects 2 1 1 [1, 0]) =
        map Inr [[[1, 2, 4, 3], [3, 4, 8, 7], [7, 8, 6, 5], [5, 6, 2, 1],
                  [3, 7, 5, 1], [8, 4, 2, 6]],
                 [[9, 10, 12, 11], [11, 12, 16, 15], [15, 16, 14, 13], [13, 14, 10, 9],
                  [11, 15, 13, 9], [16, 12, 10, 14]]]
   \<and> concat (map faces (emittedCubes 2 1 1 [1, 0])) =
        concat [[[1, 2, 4, 3], [3, 4, 8, 7], [7, 8, 6, 5], [5, 6, 2, 1],
                 [3, 7, 5, 1], [8, 4, 2, 6]],
                [[9, 10, 12, 11], [11, 12, 16, 15], [15, 16, 14, 13], [13, 14, 10, 9],
                 [11, 15, 13, 9], [16, 12, 10, 14]]]
   \<and> generateOBJ 100 2 1 1 [1, 0] ''n'' = Inr ''# CUB to OBJ v0.0.1\<newline>mtllib n.mtl\<newline>o n-obj-0\<newline>v 1 0 0\<newline>v 2 0 0\<newline>v 1 1 0\<newline>v 2 1 0\<newline>v 1 0 1\<newline>v 2 0 1\<newline>v 1 1 1\<newline>v 2 1 1\<newline>usemtl n-mat-0\<newline>s off\<newline>f 1 2 4 3\<newline>f 3 4 8 7\<newline>f 7 8 6 5\<newline>f 5 6 2 1\<newline>f 3 7 5 1\<newline>f 8 4 2 6\<newline>\<newline>o n-obj-1\<newline>v 0 0 0\<newline>v 1 0 0\<newline>v 0 1 0\<newline>v 1 1 0\<newline>v 0 0 1\<newline>v 1 0 1\<newline>v 0 1 1\<newline>v 1 1 1\<newline>usemtl n-mat-1\<newline>s off\<newline>f 9 10 12 11\<newline>f 11 12 16 15\<newline>f 15 16 14 13\<newline>f 13 14 10 9\<newline>f 11 15 13 9\<newline>f 16 12 10 14\<newline>''
   \<and> (9 :: int) \<le> int (vertexLineCount ''# CUB to OBJ v0.0.1\<newline>mtllib n.mtl\<newline>o n-obj-0\<newline>v 1 0 0\<newline>v 2 0 0\<newline>v 1 1 0\<newline>v 2 1 0\<newline>v 1 0 1\<newline>v 2 0 1\<newline>v 1 1 1\<newline>v 2 1 1\<newline>usemtl n-mat-0\<newline>s off\<newline>f 1 2 4 3\<newline>f 3 4 8 7\<newline>f 7 8 6 5\<newline>f 5 6 2 1\<newline>f 3 7 5 1\<newline>f 8 4 2 6\<newline>\<newline>o n-obj-1\<newline>v 0 0 0\<newline>v 1 0 0\<newline>v 0 1 0\<newline>v 1 1 0\<newline>v 0 0 1\<newline>v 1 0 1\<newline>v 0 1 1\<newline>v 1 1 1\<newline>usemtl n-mat-1\<newline>s off\<newline>f 9 10 12 11\<newline>f 11 12 16 15\<newline>f 15 16 14 13\<newline>f 13 14 10 9\<newline>f 11 15 13 9\<newline>f 16 12 10 14\<newline>'')"
proof -
  let ?vs = "[[(1, 0, 0), (2, 0, 0), (1, 1, 0), (2, 1, 0),
               (1, 0, 1), (2, 0, 1), (1, 1, 1), (2, 1, 1)],
              [(0, 0, 0), (1, 0, 0), (0, 1, 0), (1, 1, 0),
               (0, 0, 1), (1, 0, 1), (0, 1, 1), (1, 1, 1)]] :: point list list"
  let ?fs = "[[[1, 2, 4, 3], [3, 4, 8, 7], [7, 8, 6, 5], [5, 6, 2, 1],
               [3, 7, 5, 1], [8, 4, 2, 6]],
              [[9, 10, 12, 11], [11, 12, 16, 15], [15, 16, 14, 13], [13, 14, 10, 9],
               [11, 15, 13, 9], [16, 12, 10, 14]]] :: int list list list"
  let ?text = "''# CUB to OBJ v0.0.1\<newline>mtllib n.mtl\<newline>o n-obj-0\<newline>v 1 0 0\<newline>v 2 0 0\<newline>v 1 1 0\<newline>v 2 1 0\<newline>v 1 0 1\<newline>v 2 0 1\<newline>v 1 1 1\<newline>v 2 1 1\<newline>usemtl n-mat-0\<newline>s off\<newline>f 1 2 4 3\<newline>f 3 4 8 7\<newline>f 7 8 6 5\<newline>f 5 6 2 1\<newline>f 3 7 5 1\<newline>f 8 4 2 6\<newline>\<newline>o n-obj-1\<newline>v 0 0 0\<newline>v 1 0 0\<newline>v 0 1 0\<newline>v 1 1 0\<newline>v 0 0 1\<newline>v 1 0 1\<newline>v 0 1 1\<newline>v 1 1 1\<newline>usemtl n-mat-1\<newline>s off\<newline>f 9 10 12 11\<newline>f 11 12 16 15\<newline>f 15 16 14 13\<newline>f 13 14 10 9\<newline>f 11 15 13 9\<newline>f 16 12 10 14\<newline>''"
  have l: "length (emittedCubes 2 1 1 [1, 0]) = 2" by code_simp
  have f: "faces (emittedCubes 2 1 1 [1, 0] ! 1) =
      [[9, 10, 12, 11], [11, 12, 16, 15], [15, 16, 14, 13], [13, 14, 10, 9],
       [11, 15, 13, 9], [16, 12, 10, 14]]"
    by code_simp
  have pv: "map (allVertices 100) (objects 2 1 1 [1, 0]) = map Inr ?vs" by code_simp
  have pf: "map (allFaces 100) (objects 2 1 1 [1, 0]) = map Inr ?fs" by code_simp
  have tx: "generateOBJ 100 2 1 1 [1, 0] ''n'' = Inr ?text" by code_simp
  have a1: "1 < length (emittedCubes 2 1 1 [1, 0])" using l by simp
  have a2: "[9, 10, 12, 11] \<in> set (faces (emittedCubes 2 1 1 [1, 0] ! 1))" using f by simp
  have a3: "(9 :: int) \<in> set [9, 10, 12, 11]" by simp
  note t = face_indices_of_kth_cube [OF a1 a2 a3, of 100 "''n''"]
  from t have c1: "emittedCubes 2 1 1 [1, 0] ! 1 = pointToCube (emittedPoints 2 1 1 [1, 0] ! 1) (int 1)"
    by (rule conjunct1)
  from t have c2: "(9 :: int) \<le> int (length (concat (map vertices (emittedCubes 2 1 1 [1, 0]))))"
    by blast
  from t have "map (allVertices 100) (objects 2 1 1 [1, 0]) = map Inr ?vs \<longrightarrow>
          concat ?vs = concat (map vertices (emittedCubes 2 1 1 [1, 0]))
          \<and> 9 \<le> int (length (concat ?vs))"
    by blast
  with pv have c3: "concat (map vertices (emittedCubes 2 1 1 [1, 0])) = concat ?vs" by simp
  from t have "map (allFaces 100) (objects 2 1 1 [1, 0]) = map Inr ?fs \<longrightarrow>
          concat ?fs = concat (map faces (emittedCubes 2 1 1 [1, 0]))"
    by blast
  with pf have c4: "concat (map faces (emittedCubes 2 1 1 [1, 0])) = concat ?fs" by simp
  from t have "generateOBJ 100 2 1 1 [1, 0] ''n'' = Inr ?text \<longrightarrow> 9 \<le> int (vertexLineCount ?text)"
    by blast
  with tx have c5: "(9 :: int) \<le> int (vertexLineCount ?text)" by (rule rev_mp)
  from a1 a2 c1 c2 pv c3 pf c4 tx c5 show ?thesis by (intro conjI)
qed

subsection \<open>Hexadecimal keys\<close>

lemma length_toHex: "length (toHex c) = 2 * length c"
  by (induction c) (auto simp: toHex_def byteHex_def)

lemma hexDigit_inj:
  assumes "0 \<le> m" "m < 16" "0 \<le> n" "n < 16" "hexDigit m = hexDigit n"
  shows "m = n"
proof -
  have d: "distinct ''0123456789abcdef''" by simp
  have "nat m < length ''0123456789abcdef''" "nat n < length ''0123456789abcdef''"
    using assms by simp_all
  with assms(5) d have "nat m = nat n"
    unfolding hexDigit_def by (simp only: nth_eq_iff_index_eq)
  with assms show ?thesis by simp
qed

lemma byteHex_inj: "byteHex a = byteHex b \<Longrightarrow> a = b"
proof -
  assume e: "byteHex a = byteHex b"
  have ra: "0 \<le> uint a div 16" "uint a div 16 < 16" "0 \<le> uint a mod 16" "uint a mod 16 < 16"
    using uint_lt2p [of a] by (simp_all add: pos_imp_zdiv_nonneg_iff)
  have rb: "0 \<le> uint b div 16" "uint b div 16 < 16" "0 \<le> uint b mod 16" "uint b mod 16 < 16"
    using uint_lt2p [of b] by (simp_all add: pos_imp_zdiv_nonneg_iff)
  from e have "hexDigit (uint a div 16) = hexDigit (uint b div 16)"
    "hexDigit (uint a mod 16) = hexDigit (uint b mod 16)"
    by (simp_all add: byteHex_def)
  then have "uint a div 16 = uint b div 16" "uint a mod 16 = uint b mod 16"
    using ra rb by (auto intro: hexDigit_inj)
  then have "uint a = uint b"
    by (metis mult_div_mod_eq)
  then show ?thesis by (rule word_uint_eqI)
qed

lemma toHex_inj: "toHex a = toHex b \<Longrightarrow> a = b"
proof (induction a arbitrary: b)
  case Nil
  then have "length (toHex b) = 0" by (simp add: toHex_def)
  then show ?case unfolding length_toHex by simp
next
  case (Cons x xs)
  from Cons.prems have "length (toHex (x # xs)) = length (toHex b)" by simp
  then obtain y ys where b: "b = y # ys" by (cases b) (auto simp: length_toHex)
  from Cons.prems b have "byteHex x @ toHex xs = byteHex y @ toHex ys"
    by (simp add: toHex_def)
  moreover have "length (byteHex x) = length (byteHex y)" by (simp add: byteHex_def)
  ultimately have "byteHex x = byteHex y" "toHex xs = toHex ys" by simp_all
  with Cons.IH b show ?case by (auto dest: byteHex_inj)
qed

lemma toHex_black: "toHex c = blackKey \<longleftrightarrow> c = [0, 0, 0]"
proof
  assume "toHex c = blackKey"
  moreover have "toHex [0, 0, 0] = blackKey" by code_simp
  ultimately show "c = [0, 0, 0]" by (simp add: toHex_inj)
next
  assume "c = [0, 0, 0]"
  moreover have "toHex [0, 0, 0] = blackKey" by code_simp
  ultimately show "toHex c = blackKey" by simp
qed

subsection \<open>isolateColors\<close>

lemma forEachColor_snoc:
  "forEachColor st i (xs @ [x]) = isolateStep (forEachColor st i xs) x (i + length xs)"
  by (induction xs arbitrary: st i) auto

lemma objSet_new: "k \<notin> fst ` set ob \<Longrightarrow> objSet ob k v = ob @ [(k, v)]"
  by (induction ob k v rule: objSet.induct) auto

lemma objGet_Some_mem: "objGet ob k = Some v \<Longrightarrow> (k, v) \<in> set ob"
  by (simp add: objGet_def map_of_SomeD)

lemma isolateStep_black:
  assumes "toHex x = blackKey" "length (st_colorIndicies st) = i"
  shows "isolateStep st x i = st\<lparr>st_colorIndicies := st_colorIndicies st @ [- 1]\<rparr>"
  using assms by (simp add: isolateStep_def arraySet_def)

lemma isolateStep_new:
  assumes "toHex x \<noteq> blackKey" "toHex x \<notin> fst ` set (st_uniqueColors st)"
    "length (st_colorIndicies st) = i"
  shows "isolateStep st x i =
     st\<lparr>st_uniqueColors :=
          st_uniqueColors st @ [(toHex x, \<lparr>uc_color = x, uc_index = st_index st\<rparr>)],
        st_colorIndicies := st_colorIndicies st @ [st_index st],
        st_index := st_index st + 1\<rparr>"
proof -
  from assms(2) have "objGet (st_uniqueColors st) (toHex x) = None"
    by (simp add: objGet_None_iff)
  with assms show ?thesis
    by (simp add: isolateStep_def arraySet_def objSet_new)
qed

lemma isolateStep_old:
  assumes "toHex x \<noteq> blackKey" "objGet (st_uniqueColors st) (toHex x) = Some e"
    "length (st_colorIndicies st) = i"
  shows "isolateStep st x i = st\<lparr>st_colorIndicies := st_colorIndicies st @ [uc_index e]\<rparr>"
  using assms by (simp add: isolateStep_def arraySet_def)

lemma isolateInv_black:
  assumes "isolateInv xs st" "toHex x = blackKey"
  shows "isolateInv (xs @ [x]) (st\<lparr>st_colorIndicies := st_colorIndicies st @ [- 1]\<rparr>)"
  using assms unfolding isolateInv_def
  by (auto intro!: list_all2_appendI)

lemma isolateInv_new:
  assumes "isolateInv xs st" "toHex x \<noteq> blackKey"
    "toHex x \<notin> fst ` set (st_uniqueColors st)"
  shows "isolateInv (xs @ [x])
     (st\<lparr>st_uniqueColors :=
          st_uniqueColors st @ [(toHex x, \<lparr>uc_color = x, uc_index = st_index st\<rparr>)],
        st_colorIndicies := st_colorIndicies st @ [st_index st],
        st_index := st_index st + 1\<rparr>)"
proof -
  from assms(1) have n0: "0 \<le> st_index st" unfolding isolateInv_def by simp
  with assms show ?thesis unfolding isolateInv_def
    by (auto intro!: list_all2_appendI)
qed

lemma isolateInv_old:
  assumes "isolateInv xs st" "toHex x \<noteq> blackKey"
    "objGet (st_uniqueColors st) (toHex x) = Some e"
  shows "isolateInv (xs @ [x]) (st\<lparr>st_colorIndicies := st_colorIndicies st @ [uc_index e]\<rparr>)"
proof -
  from assms(3) have mem: "(toHex x, e) \<in> set (st_uniqueColors st)" by (rule objGet_Some_mem)
  with assms(1) have ix: "0 \<le> uc_index e" "uc_index e < st_index st"
    unfolding isolateInv_def by auto
  from mem have "toHex x \<in> fst ` set (st_uniqueColors st)" by force
  with assms(1,2) ix show ?thesis unfolding isolateInv_def
    by (auto intro!: list_all2_appendI)
qed

lemma isolateInv_forEach: "isolateInv xs (forEachColor isolateInit 0 xs)"
proof (induction xs rule: rev_induct)
  case Nil
  show ?case by (simp add: isolateInv_def isolateInit_def)
next
  case (snoc x xs)
  define st where "st = forEachColor isolateInit 0 xs"
  from snoc have inv: "isolateInv xs st" by (simp add: st_def)
  then have len: "length (st_colorIndicies st) = length xs" by (simp add: isolateInv_def)
  have step: "forEachColor isolateInit 0 (xs @ [x]) = isolateStep st x (length xs)"
    by (simp add: forEachColor_snoc st_def)
  show ?case
  proof (cases "toHex x = blackKey")
    case True
    with inv len show ?thesis
      unfolding step by (simp add: isolateStep_black isolateInv_black)
  next
    case black: False
    show ?thesis
    proof (cases "objGet (st_uniqueColors st) (toHex x)")
      case None
      then have "toHex x \<notin> fst ` set (st_uniqueColors st)" by (simp add: objGet_None_iff)
      with inv len black show ?thesis
        unfolding step by (simp add: isolateStep_new isolateInv_new)
    next
      case (Some e)
      with inv len black show ?thesis
        unfolding step by (simp add: isolateStep_old isolateInv_old)
    qed
  qed
qed

lemma objValues_length: "length (objValues f ob) = length ob"
  by (simp add: objValues_def objKeys_def length_keyOrder)

lemma objValues_set:
  assumes "distinct (map fst ob)"
  shows "set (objValues f ob) = snd ` set ob"
proof -
  have "the (objGet ob k) = v" if "(k, v) \<in> set ob" for k v
    using that assms by (simp add: objGet_def)
  then have "(\<lambda>k. the (objGet ob k)) ` fst ` set ob = snd ` set ob"
    by (force simp: image_iff)
  then show ?thesis
    by (simp add: objValues_def objKeys_def set_keyOrder)
qed

lemma isolateColors_fields:
  "colorIndicies (isolateColors xs) = st_colorIndicies (forEachColor isolateInit 0 xs)"
  "uniqueColors (isolateColors xs)
     = map uc_color (objValues arrayIndexOfString (st_uniqueColors (forEachColor isolateInit 0 xs)))"
  by (simp_all add: isolateColors_def Let_def)

lemma colorIndicies_length: "length (colorIndicies (isolateColors xs)) = length xs"
  using isolateInv_forEach [of xs] by (simp add: isolateInv_def isolateColors_fields)

lemma colorIndicies_marker:
  assumes "i < length xs"
  shows "(colorIndicies (isolateColors xs) ! i = - 1) = (xs ! i = [0, 0, 0])"
proof -
  from isolateInv_forEach [of xs]
  have "list_all2 (\<lambda>c v. (toHex c = blackKey) = (v = - 1)) xs (colorIndicies (isolateColors xs))"
    by (simp add: isolateInv_def isolateColors_fields)
  from list_all2_nthD [OF this assms] show ?thesis by (simp add: toHex_black)
qed

lemma uniqueColors_length:
  "int (length (uniqueColors (isolateColors xs))) = st_index (forEachColor isolateInit 0 xs)"
  using isolateInv_forEach [of xs]
  by (simp add: isolateInv_def isolateColors_fields objValues_length)

lemma colorIndicies_range:
  assumes "v \<in> set (colorIndicies (isolateColors xs))"
  shows "v = - 1 \<or> (0 \<le> v \<and> v < int (length (uniqueColors (isolateColors xs))))"
proof -
  from isolateInv_forEach [of xs] assms
  have "v = - 1 \<or> (0 \<le> v \<and> v < st_index (forEachColor isolateInit 0 xs))"
    unfolding isolateInv_def isolateColors_fields by blast
  then show ?thesis by (simp only: uniqueColors_length)
qed

lemma uniqueColors_set:
  "set (uniqueColors (isolateColors xs))
     = uc_color ` snd ` set (st_uniqueColors (forEachColor isolateInit 0 xs))"
proof -
  from isolateInv_forEach [of xs]
  have "distinct (map fst (st_uniqueColors (forEachColor isolateInit 0 xs)))"
    by (simp add: isolateInv_def)
  then show ?thesis by (simp add: isolateColors_fields objValues_set)
qed

lemma uniqueColors_not_black: "[0, 0, 0] \<notin> set (uniqueColors (isolateColors xs))"
proof
  assume "[0, 0, 0] \<in> set (uniqueColors (isolateColors xs))"
  then obtain k e where m: "(k, e) \<in> set (st_uniqueColors (forEachColor isolateInit 0 xs))"
    and c: "uc_color e = [0, 0, 0]"
    unfolding uniqueColors_set by force
  from isolateInv_forEach [of xs] m have "toHex (uc_color e) \<noteq> blackKey"
    unfolding isolateInv_def by blast
  with c show False by (simp add: toHex_black)
qed

lemma uniqueColors_mem:
  assumes "c \<in> set xs" "c \<noteq> [0, 0, 0]"
  shows "c \<in> set (uniqueColors (isolateColors xs))"
proof -
  from assms(2) have nb: "toHex c \<noteq> blackKey" by (simp add: toHex_black)
  with isolateInv_forEach [of xs] assms(1)
  have "toHex c \<in> fst ` set (st_uniqueColors (forEachColor isolateInit 0 xs))"
    unfolding isolateInv_def by blast
  then obtain e where m: "(toHex c, e) \<in> set (st_uniqueColors (forEachColor isolateInit 0 xs))"
    by force
  with isolateInv_forEach [of xs] have "toHex c = toHex (uc_color e)"
    unfolding isolateInv_def by blast
  then have "uc_color e = c" by (simp add: toHex_inj)
  with m show ?thesis unfolding uniqueColors_set by force
qed

subsection \<open>The grid\<close>

lemma gridPoints_product:
  "gridPoints w d h = List.product [0..w - 1] (List.product [0..d - 1] [0..h - 1])"
  by (simp add: gridPoints_def product_concat_map map_concat comp_def)

lemma gridPoints_mem:
  "(x, y, z) \<in> set (gridPoints w d h) \<longleftrightarrow> 0 \<le> x \<and> x < w \<and> 0 \<le> y \<and> y < d \<and> 0 \<le> z \<and> z < h"
  unfolding gridPoints_product by auto

lemma xyzToIndex_bound:
  assumes "0 \<le> x" "x < w" "0 \<le> y" "y < d" "0 \<le> z" "z < h"
  shows "0 \<le> xyzToIndex x y z w d h" "xyzToIndex x y z w d h < w * d * h"
proof -
  from assms show "0 \<le> xyzToIndex x y z w d h" by (simp add: xyzToIndex_def)
  from assms have "d * z \<le> d * (h - 1)" by (intro mult_left_mono) simp_all
  with assms have "y + d * z + 1 \<le> d * h" by (simp add: algebra_simps)
  with assms have "w * (y + d * z + 1) \<le> w * (d * h)" by (intro mult_left_mono) simp_all
  with assms show "xyzToIndex x y z w d h < w * d * h"
    by (simp add: xyzToIndex_def algebra_simps)
qed

lemma emittedPoints_mem:
  assumes "p \<in> set (emittedPoints w d h cis)"
  shows "p \<in> set (gridPoints w d h) \<and> colorAt w d h cis p \<noteq> Some (- 1)"
proof -
  from assms obtain k where k: "k \<in> set (keyOrder arrayIndexOfNumber (discoveryOrder w d h cis))"
    and p: "p \<in> set (filter (\<lambda>p. colorAt w d h cis p = k) (gridPoints w d h))"
    by (auto simp: emittedPoints_def objGroups_eq)
  from k have "k \<noteq> Some (- 1)" by (simp add: set_keyOrder set_discoveryOrder)
  with p show ?thesis by auto
qed

lemma colorAt_in_range:
  assumes "p \<in> set (gridPoints w d h)" "w * d * h \<le> int (length cis)"
  shows "\<exists>v\<in>set cis. colorAt w d h cis p = Some v"
proof -
  obtain x y z where p: "p = (x, y, z)" by (cases p)
  with assms(1) have r: "0 \<le> x" "x < w" "0 \<le> y" "y < d" "0 \<le> z" "z < h"
    by (simp_all add: gridPoints_mem)
  from xyzToIndex_bound [OF r] assms(2)
  have "0 \<le> xyzToIndex x y z w d h" "xyzToIndex x y z w d h < int (length cis)" by simp_all
  then show ?thesis by (simp add: p arrayGet_def)
qed

subsection \<open>The transparent colour\<close>

text \<open>
  Claim C4. For every decoded cell sequence, every cell whose colour is exactly the
  3-byte triple (0,0,0) is mapped to the exclusion marker \<open>-1\<close>; the triple (0,0,0) never
  appears in the unique-colour registry, from which alone the material blocks are
  written; and no cube of the geometry output stands on a point whose cell is (0,0,0):
  the emitted cubes, from which alone the vertex and face lines are written, are the
  cubes of the emitted points, none of which has such a cell.
\<close>

theorem transparent_cells_excluded:
  "length (colorIndicies (isolateColors cells)) = length cells
   \<and> (\<forall>i<length cells. cells ! i = [0, 0, 0] \<longrightarrow> colorIndicies (isolateColors cells) ! i = - 1)
   \<and> [0, 0, 0] \<notin> set (uniqueColors (isolateColors cells))
   \<and> (\<forall>p\<in>set (emittedPoints w d h (colorIndicies (isolateColors cells))).
        colorAt w d h cells p \<noteq> Some [0, 0, 0])
   \<and> length (emittedCubes w d h (colorIndicies (isolateColors cells)))
        = length (emittedPoints w d h (colorIndicies (isolateColors cells)))
   \<and> (\<forall>k<length (emittedPoints w d h (colorIndicies (isolateColors cells))).
        emittedCubes w d h (colorIndicies (isolateColors cells)) ! k
          = pointToCube (emittedPoints w d h (colorIndicies (isolateColors cells)) ! k) (int k))"
proof -
  let ?cis = "colorIndicies (isolateColors cells)"
  have "colorAt w d h cells p \<noteq> Some [0, 0, 0]" if "p \<in> set (emittedPoints w d h ?cis)" for p
  proof
    assume black: "colorAt w d h cells p = Some [0, 0, 0]"
    obtain x y z where p: "p = (x, y, z)" by (cases p)
    define i where "i = xyzToIndex x y z w d h"
    from black have i: "0 \<le> i" "i < int (length cells)" "cells ! nat i = [0, 0, 0]"
      by (auto simp: p arrayGet_def i_def split: if_splits)
    then have "?cis ! nat i = - 1" using colorIndicies_marker [of "nat i" cells] by simp
    with i have "colorAt w d h ?cis p = Some (- 1)"
      by (simp add: p arrayGet_def colorIndicies_length flip: i_def)
    with emittedPoints_mem [OF that] show False by simp
  qed
  then show ?thesis
    by (simp add: colorIndicies_length colorIndicies_marker uniqueColors_not_black
        emittedCubes_nth)
qed

theorem transparent_cells_excluded_witness:
  "[[255, 0, 0], [0, 0, 0]] ! 1 = [0, 0, 0 :: byte]
   \<and> colorIndicies (isolateColors [[255, 0, 0], [0, 0, 0]]) ! 1 = - 1
   \<and> [0, 0, 0] \<notin> set (uniqueColors (isolateColors [[255, 0, 0], [0, 0, 0]]))
   \<and> emittedPoints 2 1 1 (colorIndicies (isolateColors [[255, 0, 0], [0, 0, 0]])) = [(0, 0, 0)]
   \<and> colorAt 2 1 1 [[255, 0, 0], [0, 0, 0 :: byte]] (0, 0, 0) \<noteq> Some [0, 0, 0]"
proof -
  note t = transparent_cells_excluded [of "[[255, 0, 0], [0, 0, 0]]" 2 1 1]
  have c: "[[255, 0, 0], [0, 0, 0]] ! 1 = [0, 0, 0 :: byte]" by simp
  have e: "emittedPoints 2 1 1 (colorIndicies (isolateColors [[255, 0, 0], [0, 0, 0]])) = [(0, 0, 0)]"
    by code_simp
  from t [THEN conjunct2, THEN conjunct1, rule_format, of 1] c
  have m: "colorIndicies (isolateColors [[255, 0, 0], [0, 0, 0]]) ! 1 = - 1" by simp
  note u = t [THEN conjunct2, THEN conjunct2, THEN conjunct1]
  from t [THEN conjunct2, THEN conjunct2, THEN conjunct2, THEN conjunct1, rule_format, of "(0, 0, 0)"] e
  have p: "colorAt 2 1 1 [[255, 0, 0], [0, 0, 0 :: byte]] (0, 0, 0) \<noteq> Some [0, 0, 0]" by simp
  from c m u e p show ?thesis by (intro conjI)
qed

subsection \<open>Material names\<close>

lemma block_index_in_registry:
  assumes "width * depth * height \<le> int (length colors)"
    and "blk \<in> set (objects width depth height (colorIndicies (isolateColors colors)))"
  shows "\<exists>i<length (uniqueColors (isolateColors colors)). ob_colorIndex blk = Some (int i)"
proof -
  let ?cis = "colorIndicies (isolateColors colors)"
  from assms(2) have "ob_colorIndex blk \<in> set (map ob_colorIndex (objects width depth height ?cis))"
    by simp
  then have "ob_colorIndex blk \<in> colorAt width depth height ?cis ` set (gridPoints width depth height)"
    and nm: "ob_colorIndex blk \<noteq> Some (- 1)"
    unfolding objects_colorIndex by (simp_all add: set_keyOrder set_discoveryOrder)
  then obtain p where p: "p \<in> set (gridPoints width depth height)"
    and c: "ob_colorIndex blk = colorAt width depth height ?cis p" by auto
  from assms(1) have "width * depth * height \<le> int (length ?cis)"
    by (simp add: colorIndicies_length)
  from colorAt_in_range [OF p this] c obtain v where v: "v \<in> set ?cis" "ob_colorIndex blk = Some v"
    by auto
  with nm colorIndicies_range [OF v(1)]
  have r: "0 \<le> v" "v < int (length (uniqueColors (isolateColors colors)))" by auto
  then have "nat v < length (uniqueColors (isolateColors colors))" "ob_colorIndex blk = Some (int (nat v))"
    using v(2) by simp_all
  then show ?thesis by (intro exI [of _ "nat v"]) simp
qed

lemma convertCub_eq:
  assumes "readUInt32LE data 0 = Inr width"
    and "readUInt32LE data 4 = Inr depth"
    and "readUInt32LE data 8 = Inr height"
    and "chunkBuffer (sliceFrom data 12) 3 = Some colors"
  shows "convertCub maxArgs data name =
      (if \<forall>blk\<in>set (objects width depth height (colorIndicies (isolateColors colors))).
            int (length (ob_cubes blk)) \<le> maxArgs
       then Some (Inr \<lparr>obj = unlines ([''# CUB to OBJ v0.0.1'', ''mtllib '' @ name @ ''.mtl'']
                          @ blankSeparated (map (objectLines name)
                              (objects width depth height (colorIndicies (isolateColors colors))))),
                        mtl = generateMTL (uniqueColors (isolateColors colors)) name\<rparr>)
       else Some (Inl RangeError))"
  using assms by (simp add: convertCub_def Let_def generateOBJ_eq)

text \<open>
  Claim C10, with the condition on the base name that it needs. For every input buffer
  of length at least 12 (so that the three dimension fields are read) whose decoded cell
  count is at least \<open>width * depth * height\<close>, and every base name without a line break:
  the colour index of every rendered object block lies between 0 and the number of
  unique colours; the conversion returns the two texts when no colour group has more
  cubes than a call can take arguments (otherwise it throws a range error); and in every
  pair of texts that the conversion returns, the material name of every \<^verbatim>\<open>usemtl\<close> line
  of the object text (what follows \<^verbatim>\<open>usemtl\<close> and a space on a line) is the name of a
  \<^verbatim>\<open>newmtl\<close> line of the material text.
\<close>

theorem usemtl_names_are_defined:
  assumes "12 \<le> length data" and "CHR ''\<newline>'' \<notin> set name"
  shows "\<exists>width depth height colors.
      readUInt32LE data 0 = Inr width
    \<and> readUInt32LE data 4 = Inr depth
    \<and> readUInt32LE data 8 = Inr height
    \<and> chunkBuffer (sliceFrom data 12) 3 = Some colors
    \<and> convertCub maxArgs data name =
        (if \<forall>blk\<in>set (objects width depth height (colorIndicies (isolateColors colors))).
              int (length (ob_cubes blk)) \<le> maxArgs
         then Some (Inr \<lparr>obj = unlines ([''# CUB to OBJ v0.0.1'', ''mtllib '' @ name @ ''.mtl'']
                            @ blankSeparated (map (objectLines name)
                                (objects width depth height (colorIndicies (isolateColors colors))))),
                          mtl = generateMTL (uniqueColors (isolateColors colors)) name\<rparr>)
         else Some (Inl RangeError))
    \<and> (width * depth * height \<le> int (length colors) \<longrightarrow>
        (\<forall>blk\<in>set (objects width depth height (colorIndicies (isolateColors colors))).
           \<exists>i<length (uniqueColors (isolateColors colors)). ob_colorIndex blk = Some (int i))
        \<and> (\<forall>r. convertCub maxArgs data name = Some (Inr r) \<longrightarrow>
             (\<forall>l\<in>set (linesOf (obj r)). take 7 l = ''usemtl '' \<longrightarrow>
                ''newmtl '' @ drop 7 l \<in> set (linesOf (mtl r)))))"
proof -
  from assms(1) obtain width depth height where r:
    "readUInt32LE data 0 = Inr width" "readUInt32LE data 4 = Inr depth"
    "readUInt32LE data 8 = Inr height"
    by (simp add: readUInt32LE_def)
  from chunkBuffer_correct [of 3 "sliceFrom data 12"]
  obtain colors where c: "chunkBuffer (sliceFrom data 12) 3 = Some colors" by auto
  let ?blks = "objects width depth height (colorIndicies (isolateColors colors))"
  let ?unique = "uniqueColors (isolateColors colors)"
  note conv = convertCub_eq [OF r c, of maxArgs name]
  have idx: "\<forall>blk\<in>set ?blks. \<exists>i<length ?unique. ob_colorIndex blk = Some (int i)"
    if "width * depth * height \<le> int (length colors)"
    using block_index_in_registry [OF that] by blast
  have names: "''newmtl '' @ drop 7 l \<in> set (linesOf (mtl res))"
    if sz: "width * depth * height \<le> int (length colors)"
      and res: "convertCub maxArgs data name = Some (Inr res)"
      and l: "l \<in> set (linesOf (obj res))" "take 7 l = ''usemtl ''" for res l
  proof -
    from res conv have o: "obj res = unlines ([''# CUB to OBJ v0.0.1'', ''mtllib '' @ name @ ''.mtl'']
                          @ blankSeparated (map (objectLines name) ?blks))"
      and m: "mtl res = generateMTL ?unique name"
      by (auto split: if_splits)
    from l(1) have "l \<in> set (linesOf (unlines ([''# CUB to OBJ v0.0.1'', ''mtllib '' @ name @ ''.mtl'']
                          @ blankSeparated (map (objectLines name) ?blks))))"
      unfolding o .
    from usemtl_defined [OF assms(2) idx [OF sz] this l(2)] show ?thesis unfolding m .
  qed
  from r c conv idx names show ?thesis by blast
qed

theorem usemtl_names_are_defined_witness:
  "12 \<le> length [1, 0, 0, 0, 1, 0, 0, 0, 1, 0, 0, 0, 255, 0, 0 :: byte]
   \<and> CHR ''\<newline>'' \<notin> set ''cube''
   \<and> readUInt32LE [1, 0, 0, 0, 1, 0, 0, 0, 1, 0, 0, 0, 255, 0, 0] 0 = Inr 1
   \<and> readUInt32LE [1, 0, 0, 0, 1, 0, 0, 0, 1, 0, 0, 0, 255, 0, 0] 4 = Inr 1
   \<and> readUInt32LE [1, 0, 0, 0, 1, 0, 0, 0, 1, 0, 0, 0, 255, 0, 0] 8 = Inr 1
   \<and> chunkBuffer (sliceFrom [1, 0, 0, 0, 1, 0, 0, 0, 1, 0, 0, 0, 255, 0, 0] 12) 3 = Some [[255, 0, 0]]
   \<and> (1 :: int) * 1 * 1 \<le> int (length [[255, 0, 0 :: byte]])
   \<and> list_all (\<lambda>blk. int (length (ob_cubes blk)) \<le> 1000)
        (objects 1 1 1 (colorIndicies (isolateColors [[255, 0, 0]])))
   \<and> convertCub 1000 [1, 0, 0, 0, 1, 0, 0, 0, 1, 0, 0, 0, 255, 0, 0] ''cube'' =
        Some (Inr \<lparr>obj = ''# CUB to OBJ v0.0.1\<newline>mtllib cube.mtl\<newline>o cube-obj-0\<newline>v 0 0 0\<newline>v 1 0 0\<newline>v 0 1 0\<newline>v 1 1 0\<newline>v 0 0 1\<newline>v 1 0 1\<newline>v 0 1 1\<newline>v 1 1 1\<newline>usemtl cube-mat-0\<newline>s off\<newline>f 1 2 4 3\<newline>f 3 4 8 7\<newline>f 7 8 6 5\<newline>f 5 6 2 1\<newline>f 3 7 5 1\<newline>f 8 4 2 6\<newline>'',
                   mtl = ''# CUB to OBJ v0.0.1\<newline>newmtl cube-mat-0\<newline>Kd 1.000000 0.000000 0.000000\<newline>''\<rparr>)
   \<and> ''usemtl cube-mat-0'' \<in> set (linesOf ''# CUB to OBJ v0.0.1\<newline>mtllib cube.mtl\<newline>o cube-obj-0\<newline>v 0 0 0\<newline>v 1 0 0\<newline>v 0 1 0\<newline>v 1 1 0\<newline>v 0 0 1\<newline>v 1 0 1\<newline>v 0 1 1\<newline>v 1 1 1\<newline>usemtl cube-mat-0\<newline>s off\<newline>f 1 2 4 3\<newline>f 3 4 8 7\<newline>f 7 8 6 5\<newline>f 5 6 2 1\<newline>f 3 7 5 1\<newline>f 8 4 2 6\<newline>'')
   \<and> take 7 ''usemtl cube-mat-0'' = ''usemtl ''
   \<and> ''newmtl '' @ drop 7 ''usemtl cube-mat-0''
        \<in> set (linesOf ''# CUB to OBJ v0.0.1\<newline>newmtl cube-mat-0\<newline>Kd 1.000000 0.000000 0.000000\<newline>'')"
proof -
  let ?data = "[1, 0, 0, 0, 1, 0, 0, 0, 1, 0, 0, 0, 255, 0, 0] :: buffer"
  let ?obj = "''# CUB to OBJ v0.0.1\<newline>mtllib cube.mtl\<newline>o cube-obj-0\<newline>v 0 0 0\<newline>v 1 0 0\<newline>v 0 1 0\<newline>v 1 1 0\<newline>v 0 0 1\<newline>v 1 0 1\<newline>v 0 1 1\<newline>v 1 1 1\<newline>usemtl cube-mat-0\<newline>s off\<newline>f 1 2 4 3\<newline>f 3 4 8 7\<newline>f 7 8 6 5\<newline>f 5 6 2 1\<newline>f 3 7 5 1\<newline>f 8 4 2 6\<newline>''"
  let ?mtl = "''# CUB to OBJ v0.0.1\<newline>newmtl cube-mat-0\<newline>Kd 1.000000 0.000000 0.000000\<newline>''"
  have len: "12 \<le> length ?data" by simp
  have nm: "CHR ''\<newline>'' \<notin> set ''cube''" by simp
  have r0: "readUInt32LE ?data 0 = Inr 1" by code_simp
  have r4: "readUInt32LE ?data 4 = Inr 1" by code_simp
  have r8: "readUInt32LE ?data 8 = Inr 1" by code_simp
  have ch: "chunkBuffer (sliceFrom ?data 12) 3 = Some [[255, 0, 0]]" by code_simp
  have sz: "(1 :: int) * 1 * 1 \<le> int (length [[255, 0, 0 :: byte]])" by simp
  have gr: "list_all (\<lambda>blk. int (length (ob_cubes blk)) \<le> 1000)
        (objects 1 1 1 (colorIndicies (isolateColors [[255, 0, 0]])))"
    by code_simp
  have cv: "convertCub 1000 ?data ''cube'' = Some (Inr \<lparr>obj = ?obj, mtl = ?mtl\<rparr>)"
    by code_simp
  have ln: "''usemtl cube-mat-0'' \<in> set (linesOf ?obj)" by code_simp
  have tk: "take 7 ''usemtl cube-mat-0'' = ''usemtl ''" by simp
  from usemtl_names_are_defined [OF len nm, of 1000]
  obtain width depth height colors where w:
    "readUInt32LE ?data 0 = Inr width" "readUInt32LE ?data 4 = Inr depth"
    "readUInt32LE ?data 8 = Inr height" "chunkBuffer (sliceFrom ?data 12) 3 = Some colors"
    and names: "width * depth * height \<le> int (length colors) \<longrightarrow>
        (\<forall>r. convertCub 1000 ?data ''cube'' = Some (Inr r) \<longrightarrow>
             (\<forall>l\<in>set (linesOf (obj r)). take 7 l = ''usemtl '' \<longrightarrow>
                ''newmtl '' @ drop 7 l \<in> set (linesOf (mtl r))))"
    by blast
  from w r0 r4 r8 ch have e: "width = 1" "depth = 1" "height = 1" "colors = [[255, 0, 0]]"
    by simp_all
  from names sz have "\<forall>r. convertCub 1000 ?data ''cube'' = Some (Inr r) \<longrightarrow>
             (\<forall>l\<in>set (linesOf (obj r)). take 7 l = ''usemtl '' \<longrightarrow>
                ''newmtl '' @ drop 7 l \<in> set (linesOf (mtl r)))"
    unfolding e by (rule mp)
  from this [rule_format, OF cv, of "''usemtl cube-mat-0''"] ln tk
  have nw: "''newmtl '' @ drop 7 ''usemtl cube-mat-0'' \<in> set (linesOf ?mtl)"
    by simp
  from len nm r0 r4 r8 ch sz gr cv ln tk nw show ?thesis by (intro conjI)
qed

text \<open>
  Claim C10 as stated fails for a base name with a line break. With the buffer of a
  1 by 1 by 1 grid whose only cell is transparent (its cell count equals
  \<open>width * depth * height\<close>) and the base name made of \<^verbatim>\<open>x\<close>, a line break and
  \<^verbatim>\<open>usemtl y\<close>, the \<^verbatim>\<open>mtllib\<close> line of the object text breaks in two and the text has the
  line \<^verbatim>\<open>usemtl y.mtl\<close>, while the material text has no \<^verbatim>\<open>newmtl\<close> line at all.
\<close>

theorem usemtl_line_break_counterexample:
  "12 \<le> length [1, 0, 0, 0, 1, 0, 0, 0, 1, 0, 0, 0, 0, 0, 0 :: byte]
   \<and> chunkBuffer (sliceFrom [1, 0, 0, 0, 1, 0, 0, 0, 1, 0, 0, 0, 0, 0, 0] 12) 3 = Some [[0, 0, 0]]
   \<and> convertCub 1000 [1, 0, 0, 0, 1, 0, 0, 0, 1, 0, 0, 0, 0, 0, 0] ''x\<newline>usemtl y'' =
       Some (Inr \<lparr>obj = ''# CUB to OBJ v0.0.1\<newline>mtllib x\<newline>usemtl y.mtl\<newline>'',
                  mtl = ''# CUB to OBJ v0.0.1\<newline>''\<rparr>)
   \<and> linesOf ''# CUB to OBJ v0.0.1\<newline>mtllib x\<newline>usemtl y.mtl\<newline>''
       = [''# CUB to OBJ v0.0.1'', ''mtllib x'', ''usemtl y.mtl'', '''']
   \<and> linesOf ''# CUB to OBJ v0.0.1\<newline>'' = [''# CUB to OBJ v0.0.1'', '''']"
proof -
  have "12 \<le> length [1, 0, 0, 0, 1, 0, 0, 0, 1, 0, 0, 0, 0, 0, 0 :: byte]" by simp
  moreover have "chunkBuffer (sliceFrom [1, 0, 0, 0, 1, 0, 0, 0, 1, 0, 0, 0, 0, 0, 0] 12) 3
      = Some [[0, 0, 0]]"
    by code_simp
  moreover have "convertCub 1000 [1, 0, 0, 0, 1, 0, 0, 0, 1, 0, 0, 0, 0, 0, 0] ''x\<newline>usemtl y'' =
       Some (Inr \<lparr>obj = ''# CUB to OBJ v0.0.1\<newline>mtllib x\<newline>usemtl y.mtl\<newline>'',
                  mtl = ''# CUB to OBJ v0.0.1\<newline>''\<rparr>)"
    by code_simp
  moreover have "linesOf ''# CUB to OBJ v0.0.1\<newline>mtllib x\<newline>usemtl y.mtl\<newline>''
       = [''# CUB to OBJ v0.0.1'', ''mtllib x'', ''usemtl y.mtl'', '''']"
    by code_simp
  moreover have "linesOf ''# CUB to OBJ v0.0.1\<newline>'' = [''# CUB to OBJ v0.0.1'', '''']"
    by code_simp
  ultimately show ?thesis by (intro conjI)
qed

subsection \<open>A trailing partial group\<close>

lemma sliceFrom_drop: "0 \<le> n \<Longrightarrow> sliceFrom buf n = drop (nat n) buf"
  by (simp add: sliceFrom_def slice_buf_def clampIndex_def min_def Let_def)

lemma length_concat_three:
  "(\<And>c. c \<in> set xs \<Longrightarrow> length c = 3) \<Longrightarrow> length (concat xs) = 3 * length xs"
  by (induction xs) auto

text \<open>
  Claim C2, as the code has it. For every input buffer of length at least 12 whose
  remaining byte count after offset 12 is not a multiple of 3, the decoder keeps the
  trailing partial group of 1 or 2 bytes: the decoded cell sequence consists of the full
  3-byte groups followed by one short cell holding the leftover bytes. The short cell is
  not transparent: its colour index is not the exclusion marker, and it is a colour of
  the unique-colour registry (and so gets a material block).
\<close>

theorem trailing_partial_group_kept:
  assumes "12 \<le> length data" and "(length data - 12) mod 3 \<noteq> 0"
  shows "\<exists>full leftover.
      chunkBuffer (sliceFrom data 12) 3 = Some (full @ [leftover])
    \<and> concat full @ leftover = drop 12 data
    \<and> (\<forall>c\<in>set full. length c = 3)
    \<and> length leftover = (length data - 12) mod 3
    \<and> length (colorIndicies (isolateColors (full @ [leftover]))) = length full + 1
    \<and> last (colorIndicies (isolateColors (full @ [leftover]))) \<noteq> - 1
    \<and> leftover \<in> set (uniqueColors (isolateColors (full @ [leftover])))"
proof -
  have sl: "sliceFrom data 12 = drop 12 data" using sliceFrom_drop [of 12 data] by simp
  from chunkBuffer_correct [of 3 "drop 12 data"]
  obtain chunks where c: "chunkBuffer (drop 12 data) 3 = Some chunks"
    "concat chunks = drop 12 data"
    "\<forall>c\<in>set chunks. c \<noteq> [] \<and> int (length c) \<le> 3"
    "\<forall>c\<in>set (butlast chunks). int (length c) = 3"
    by auto
  have ne: "chunks \<noteq> []"
  proof
    assume "chunks = []"
    with c(2) have "length data - 12 = 0" by simp
    with assms(2) show False by simp
  qed
  define full where "full = butlast chunks"
  define leftover where "leftover = last chunks"
  from ne have ch: "chunks = full @ [leftover]" by (simp add: full_def leftover_def)
  from c(4) have f3: "\<And>c. c \<in> set full \<Longrightarrow> length c = 3" by (simp add: full_def)
  from c(3) ch have l3: "leftover \<noteq> []" "length leftover \<le> 3" by auto
  from c(2) have "length (concat full) + length leftover = length data - 12"
    by (simp add: ch flip: length_append)
  then have tot: "3 * length full + length leftover = length data - 12"
    using length_concat_three [of full, OF f3] by simp
  with assms(2) have "length leftover mod 3 \<noteq> 0"
    by (metis mod_mult_self4)
  with l3 have lt: "length leftover < 3" by (cases "length leftover = 3") auto
  with tot have ll: "length leftover = (length data - 12) mod 3"
    by (metis mod_less mod_mult_self4)
  from lt l3 have nb: "leftover \<noteq> [0, 0, 0]" by auto
  have mem: "leftover \<in> set (uniqueColors (isolateColors (full @ [leftover])))"
    using nb by (intro uniqueColors_mem) simp_all
  have len: "length (colorIndicies (isolateColors (full @ [leftover]))) = length full + 1"
    by (simp add: colorIndicies_length)
  have "colorIndicies (isolateColors (full @ [leftover])) ! length full \<noteq> - 1"
    using colorIndicies_marker [of "length full" "full @ [leftover]"] nb by simp
  moreover from len have "colorIndicies (isolateColors (full @ [leftover])) \<noteq> []" by auto
  ultimately have lastv: "last (colorIndicies (isolateColors (full @ [leftover]))) \<noteq> - 1"
    using len by (simp add: last_conv_nth)
  from c(1) c(2) ch sl f3 ll len lastv mem show ?thesis
    by (intro exI [of _ full] exI [of _ leftover]) simp
qed

theorem trailing_partial_group_kept_witness:
  "12 \<le> length [1, 0, 0, 0, 1, 0, 0, 0, 1, 0, 0, 0, 255 :: byte]
   \<and> (length [1, 0, 0, 0, 1, 0, 0, 0, 1, 0, 0, 0, 255 :: byte] - 12) mod 3 \<noteq> 0
   \<and> (\<exists>full leftover.
        chunkBuffer (sliceFrom [1, 0, 0, 0, 1, 0, 0, 0, 1, 0, 0, 0, 255] 12) 3
          = Some (full @ [leftover])
        \<and> length leftover = 1
        \<and> leftover \<in> set (uniqueColors (isolateColors (full @ [leftover]))))"
proof -
  have h1: "12 \<le> length [1, 0, 0, 0, 1, 0, 0, 0, 1, 0, 0, 0, 255 :: byte]" by simp
  have h2: "(length [1, 0, 0, 0, 1, 0, 0, 0, 1, 0, 0, 0, 255 :: byte] - 12) mod 3 \<noteq> 0" by simp
  from trailing_partial_group_kept [OF h1 h2] h1 h2 show ?thesis by auto
qed

text \<open>
  Claim C2 as stated fails. With a header for a 1 by 1 by 1 grid followed by the single
  byte 255, the decoder yields the one-byte cell \<open>[255]\<close>, which becomes colour 0 of the
  registry, an object block and a material block with the single component
  \<^verbatim>\<open>1.000000\<close>.
\<close>

theorem trailing_partial_group_counterexample:
  "chunkBuffer (sliceFrom [1, 0, 0, 0, 1, 0, 0, 0, 1, 0, 0, 0, 255] 12) 3 = Some [[255]]
   \<and> isolateColors [[255]] = \<lparr>uniqueColors = [[255]], colorIndicies = [0]\<rparr>
   \<and> map ob_colorIndex (objects 1 1 1 [0]) = [Some 0]
   \<and> convertCub 1000 [1, 0, 0, 0, 1, 0, 0, 0, 1, 0, 0, 0, 255] ''c'' =
       Some (Inr \<lparr>obj = ''# CUB to OBJ v0.0.1\<newline>mtllib c.mtl\<newline>o c-obj-0\<newline>v 0 0 0\<newline>v 1 0 0\<newline>v 0 1 0\<newline>v 1 1 0\<newline>v 0 0 1\<newline>v 1 0 1\<newline>v 0 1 1\<newline>v 1 1 1\<newline>usemtl c-mat-0\<newline>s off\<newline>f 1 2 4 3\<newline>f 3 4 8 7\<newline>f 7 8 6 5\<newline>f 5 6 2 1\<newline>f 3 7 5 1\<newline>f 8 4 2 6\<newline>'',
                  mtl = ''# CUB to OBJ v0.0.1\<newline>newmtl c-mat-0\<newline>Kd 1.000000\<newline>''\<rparr>)"
proof -
  have "chunkBuffer (sliceFrom [1, 0, 0, 0, 1, 0, 0, 0, 1, 0, 0, 0, 255] 12) 3 = Some [[255]]"
    by code_simp
  moreover have "isolateColors [[255]] = \<lparr>uniqueColors = [[255]], colorIndicies = [0]\<rparr>"
    by code_simp
  moreover have "map ob_colorIndex (objects 1 1 1 [0]) = [Some 0]"
    by code_simp
  moreover have "convertCub 1000 [1, 0, 0, 0, 1, 0, 0, 0, 1, 0, 0, 0, 255] ''c'' =
       Some (Inr \<lparr>obj = ''# CUB to OBJ v0.0.1\<newline>mtllib c.mtl\<newline>o c-obj-0\<newline>v 0 0 0\<newline>v 1 0 0\<newline>v 0 1 0\<newline>v 1 1 0\<newline>v 0 0 1\<newline>v 1 0 1\<newline>v 0 1 1\<newline>v 1 1 1\<newline>usemtl c-mat-0\<newline>s off\<newline>f 1 2 4 3\<newline>f 3 4 8 7\<newline>f 7 8 6 5\<newline>f 5 6 2 1\<newline>f 3 7 5 1\<newline>f 8 4 2 6\<newline>'',
                  mtl = ''# CUB to OBJ v0.0.1\<newline>newmtl c-mat-0\<newline>Kd 1.000000\<newline>''\<rparr>)"
    by code_simp
  ultimately show ?thesis by (intro conjI)
qed

subsection \<open>The order of the unique colours\<close>

text \<open>
  Claim C5 fails on the code. The cells (255,0,0) and (18,52,86) have the hexadecimal keys
  \<^verbatim>\<open>ff0000\<close> and \<^verbatim>\<open>123456\<close>. The second key is the decimal string of an array index, so
  \<^verbatim>\<open>Object.values(uniqueColors)\<close> lists it first, although it was created last. The
  first cell has the index 0, and the colour at position 0 of the returned registry is
  (18,52,86), the colour of the second cell.
\<close>

theorem isolateColors_registry_order_failure:
  "isolateColors [[255, 0, 0], [18, 52, 86]] =
     \<lparr>uniqueColors = [[18, 52, 86], [255, 0, 0]], colorIndicies = [0, 1]\<rparr>"
  by code_simp

end
